theory Spec2Isabelle
  imports Main "HOL-Library.Sublist"
begin

section \<open>JavaScript strings\<close>

text \<open>
  A JavaScript string is a sequence of UTF-16 code units. It is modelled as a
  \<^typ>\<open>string\<close>; every \<^typ>\<open>char\<close> stands for one code unit (the code units
  below 256, which cover every literal of the sources). The built-in methods the
  sources call are modelled after ECMA-262.
\<close>

datatype error = TypeError | OverlappingEdit

text \<open>\<^verbatim>\<open>s.startsWith(p)\<close>\<close>

definition startsWith :: "string \<Rightarrow> string \<Rightarrow> bool" where
  "startsWith s p = prefix p s"

text \<open>
  \<^verbatim>\<open>s.split(sep)\<close> for a string separator: the pieces between the occurrences of the
  separator, found from left to right without overlap; an empty separator splits
  into the code units.
\<close>

function split_at :: "string \<Rightarrow> string \<Rightarrow> string list" where
  "split_at sep [] = [[]]"
| "split_at sep (c # cs) =
     (if sep \<noteq> [] \<and> prefix sep (c # cs)
      then [] # split_at sep (drop (length sep) (c # cs))
      else (case split_at sep cs of
              [] \<Rightarrow> [[c]]
            | w # ws \<Rightarrow> (c # w) # ws))"
  by pat_completeness auto
termination
  by (relation "measure (\<lambda>(sep, s). length s)") auto

definition split :: "string \<Rightarrow> string \<Rightarrow> string list" where
  "split s sep = (if sep = [] then map (\<lambda>c. [c]) s else split_at sep s)"

text \<open>\<^verbatim>\<open>xs.join(sep)\<close>\<close>

fun join :: "string list \<Rightarrow> string \<Rightarrow> string" where
  "join [] sep = []"
| "join [x] sep = x"
| "join (x # y # ys) sep = x @ sep @ join (y # ys) sep"

text \<open>\<^verbatim>\<open>s.substring(a, b)\<close>: the arguments are swapped when \<^verbatim>\<open>a > b\<close> and clamped to the length.\<close>

definition substring :: "string \<Rightarrow> nat \<Rightarrow> nat \<Rightarrow> string" where
  "substring s a b = take (max a b - min a b) (drop (min a b) s)"

text \<open>\<^verbatim>\<open>s.substr(from, len)\<close> for a non-negative \<^verbatim>\<open>from\<close>.\<close>

definition substr :: "string \<Rightarrow> nat \<Rightarrow> nat \<Rightarrow> string" where
  "substr s from len = take len (drop from s)"

text \<open>
  \<^verbatim>\<open>s.trimStart()\<close> removes the leading WhiteSpace and LineTerminator code units:
  TAB, LF, VT, FF, CR, SP and NBSP among the code units below 256.
\<close>

definition isWhiteSpace :: "char \<Rightarrow> bool" where
  "isWhiteSpace c = (c \<in> {CHR 0x09, CHR 0x0A, CHR 0x0B, CHR 0x0C, CHR 0x0D, CHR 0x20, CHR 0xA0})"

definition trimStart :: "string \<Rightarrow> string" where
  "trimStart s = dropWhile isWhiteSpace s"

text \<open>\<^verbatim>\<open>s.indexOf(pat)\<close>, with \<open>None\<close> for \<^verbatim>\<open>-1\<close>.\<close>

fun indexOf :: "string \<Rightarrow> string \<Rightarrow> nat option" where
  "indexOf [] pat = (if pat = [] then Some 0 else None)"
| "indexOf (c # cs) pat =
     (if prefix pat (c # cs) then Some 0 else map_option Suc (indexOf cs pat))"

text \<open>
  GetSubstitution of ECMA-262 for a string pattern (no capture groups): in the
  replacement, \<^verbatim>\<open>$$\<close> stands for a dollar sign, \<^verbatim>\<open>$&\<close> for the matched text,
  \<^verbatim>\<open>$`\<close> for the text preceding the match and \<^verbatim>\<open>$'\<close> for the text following it; any
  other dollar sign is literal.
\<close>

fun getSubstitution :: "string \<Rightarrow> string \<Rightarrow> string \<Rightarrow> string \<Rightarrow> string" where
  "getSubstitution matched preceding following [] = []"
| "getSubstitution matched preceding following [c] = [c]"
| "getSubstitution matched preceding following (c # d # rest) =
     (if c = CHR ''$'' \<and> d = CHR ''$'' then CHR ''$'' # getSubstitution matched preceding following rest
      else if c = CHR ''$'' \<and> d = CHR ''&'' then matched @ getSubstitution matched preceding following rest
      else if c = CHR ''$'' \<and> d = CHR 0x60 then preceding @ getSubstitution matched preceding following rest
      else if c = CHR ''$'' \<and> d = CHR 0x27 then following @ getSubstitution matched preceding following rest
      else c # getSubstitution matched preceding following (d # rest))"

text \<open>\<^verbatim>\<open>s.replace(pat, rep)\<close> for a string pattern: only the first occurrence is replaced.\<close>

definition replace :: "string \<Rightarrow> string \<Rightarrow> string \<Rightarrow> string" where
  "replace s pat rep =
     (case indexOf s pat of
        None \<Rightarrow> s
      | Some i \<Rightarrow>
          (let preceding = take i s; following = drop (i + length pat) s
           in preceding @ getSubstitution pat preceding following rep @ following))"

section \<open>Text documents (vscode-languageserver-textdocument)\<close>

text \<open>
  The sources work on the \<^verbatim>\<open>TextDocument\<close> of the language-server library. Its
  operations are modelled after the library's implementation: line offsets are
  computed from the line terminators CR, LF and CRLF, \<^verbatim>\<open>positionAt\<close> clamps the
  offset and finds the line by binary search, \<^verbatim>\<open>offsetAt\<close> clamps the position to
  its line, and \<^verbatim>\<open>applyEdits\<close> sorts the edits by start position with a stable
  merge sort and raises on overlapping edits.
\<close>

record Position =
  line :: nat
  character :: nat

record Range =
  range_start :: Position
  range_end :: Position

record 'm TextEdit =
  edit_range :: "'m Range_scheme"
  newText :: string

record TextDocument =
  uri :: string
  languageId :: string
  version :: int
  text_content :: string

definition TextDocument_create :: "string \<Rightarrow> string \<Rightarrow> int \<Rightarrow> string \<Rightarrow> TextDocument" where
  "TextDocument_create u l v t = \<lparr>uri = u, languageId = l, version = v, text_content = t\<rparr>"

definition getText :: "TextDocument \<Rightarrow> string" where
  "getText document = text_content document"

fun computeLineOffsets :: "nat \<Rightarrow> string \<Rightarrow> nat list" where
  "computeLineOffsets i [] = []"
| "computeLineOffsets i [c] = (if c = CHR 0x0D \<or> c = CHR 0x0A then [i + 1] else [])"
| "computeLineOffsets i (c # d # cs) =
     (if c = CHR 0x0D \<and> d = CHR 0x0A then (i + 2) # computeLineOffsets (i + 2) cs
      else if c = CHR 0x0D \<or> c = CHR 0x0A then (i + 1) # computeLineOffsets (i + 1) (d # cs)
      else computeLineOffsets (i + 1) (d # cs))"

definition getLineOffsets :: "TextDocument \<Rightarrow> nat list" where
  "getLineOffsets document = 0 # computeLineOffsets 0 (text_content document)"

function findLow :: "nat list \<Rightarrow> nat \<Rightarrow> nat \<Rightarrow> nat \<Rightarrow> nat" where
  "findLow lineOffsets offset low high =
     (if low < high then
        (if lineOffsets ! ((low + high) div 2) > offset
         then findLow lineOffsets offset low ((low + high) div 2)
         else findLow lineOffsets offset ((low + high) div 2 + 1) high)
      else low)"
  by pat_completeness auto
termination
  by (relation "measure (\<lambda>(lineOffsets, offset, low, high). high - low)") auto

declare findLow.simps [simp del]

definition positionAt :: "TextDocument \<Rightarrow> nat \<Rightarrow> Position" where
  "positionAt document offset0 =
     (let offset = min offset0 (length (text_content document));
          lineOffsets = getLineOffsets document;
          high = length lineOffsets
      in if high = 0 then \<lparr>line = 0, character = offset\<rparr>
         else (let low = findLow lineOffsets offset 0 high;
                   line = low - 1
               in \<lparr>line = line, character = offset - lineOffsets ! line\<rparr>))"

definition offsetAt :: "TextDocument \<Rightarrow> 'm Position_scheme \<Rightarrow> nat" where
  "offsetAt document position =
     (let lineOffsets = getLineOffsets document in
      if line position \<ge> length lineOffsets then length (text_content document)
      else (let lineOffset = lineOffsets ! line position;
                nextLineOffset =
                  (if line position + 1 < length lineOffsets
                   then lineOffsets ! (line position + 1)
                   else length (text_content document))
            in max (min (lineOffset + character position) nextLineOffset) lineOffset))"

definition getText_range :: "TextDocument \<Rightarrow> 'm Range_scheme \<Rightarrow> string" where
  "getText_range document r =
     substring (text_content document) (offsetAt document (range_start r)) (offsetAt document (range_end r))"

definition comparePosition :: "Position \<Rightarrow> Position \<Rightarrow> int" where
  "comparePosition a b =
     (let diff = int (line a) - int (line b)
      in if diff = 0 then int (character a) - int (character b) else diff)"

definition getWellformedRange :: "'m Range_scheme \<Rightarrow> 'm Range_scheme" where
  "getWellformedRange r =
     (if line (range_start r) > line (range_end r)
         \<or> (line (range_start r) = line (range_end r)
             \<and> character (range_start r) > character (range_end r))
      then r\<lparr>range_start := range_end r, range_end := range_start r\<rparr>
      else r)"

definition getWellformedEdit :: "'m TextEdit \<Rightarrow> 'm TextEdit" where
  "getWellformedEdit textEdit =
     (let r = getWellformedRange (edit_range textEdit)
      in if r \<noteq> edit_range textEdit then \<lparr>edit_range = r, newText = newText textEdit\<rparr> else textEdit)"

fun merge_sorted :: "('a \<Rightarrow> 'a \<Rightarrow> int) \<Rightarrow> 'a list \<Rightarrow> 'a list \<Rightarrow> 'a list" where
  "merge_sorted compare [] right = right"
| "merge_sorted compare left [] = left"
| "merge_sorted compare (l # left) (r # right) =
     (if compare l r \<le> 0 then l # merge_sorted compare left (r # right)
      else r # merge_sorted compare (l # left) right)"

function mergeSort :: "('a \<Rightarrow> 'a \<Rightarrow> int) \<Rightarrow> 'a list \<Rightarrow> 'a list" where
  "mergeSort compare data =
     (if length data \<le> 1 then data
      else merge_sorted compare
             (mergeSort compare (take (length data div 2) data))
             (mergeSort compare (drop (length data div 2) data)))"
  by pat_completeness auto
termination
  by (relation "measure (\<lambda>(compare, data). length data)") auto

declare mergeSort.simps [simp del]

text \<open>
  The loop of \<^verbatim>\<open>applyEdits\<close> over the sorted edits: \<open>spans\<close> collects the pieces
  of the new text, \<open>lastModifiedOffset\<close> is the end of the last edit applied.
\<close>

fun applyEdits_loop ::
  "TextDocument \<Rightarrow> 'm TextEdit list \<Rightarrow> nat \<Rightarrow> string list \<Rightarrow> error + string" where
  "applyEdits_loop document [] lastModifiedOffset spans =
     Inr (concat (spans @ [drop lastModifiedOffset (getText document)]))"
| "applyEdits_loop document (e # es) lastModifiedOffset spans =
     (let startOffset = offsetAt document (range_start (edit_range e)) in
      if startOffset < lastModifiedOffset then Inl OverlappingEdit
      else
        (let spans1 = (if startOffset > lastModifiedOffset
                       then spans @ [substring (getText document) lastModifiedOffset startOffset]
                       else spans);
             spans2 = (if length (newText e) \<noteq> 0 then spans1 @ [newText e] else spans1)
         in applyEdits_loop document es (offsetAt document (range_end (edit_range e))) spans2))"

definition applyEdits :: "TextDocument \<Rightarrow> 'm TextEdit list \<Rightarrow> error + string" where
  "applyEdits document edits =
     (let sortedEdits =
            mergeSort (\<lambda>a b. comparePosition (range_start (edit_range a)) (range_start (edit_range b)))
              (map getWellformedEdit edits)
      in applyEdits_loop document sortedEdits 0 [])"

section \<open>The formatter (register and its passes)\<close>

text \<open>
  A capability flag that is unset is \<^verbatim>\<open>undefined\<close> or \<^verbatim>\<open>false\<close> in the source; both
  are falsy and are modelled as \<open>False\<close>. The flags are the ones the spec lists.
\<close>

record Capabilities =
  formatting :: bool
  completion :: bool
  diagnostics :: bool
  hover :: bool
  semanticTokens :: bool
  references :: bool

record MappingData =
  capabilities :: Capabilities

record OffsetRange =
  start_offset :: nat
  end_offset :: nat

record Mapping =
  data :: MappingData
  sourceRange :: OffsetRange
  mappedRange :: OffsetRange

text \<open>A range returned by a source map carries the data of the mapping entry that covers it.\<close>

record MappedRange = Range +
  range_data :: MappingData

type_synonym VueTextEdit = "unit MappedRange_ext TextEdit"

record FormattingOptions =
  tabSize :: nat
  insertSpaces :: bool

text \<open>
  A source map of the source file: its own capabilities, the virtual document it
  maps, its mapping entries (what iterating over the map yields), and the two
  translation functions of the source-map library, taken as they are.
\<close>

record SourceMap =
  map_capabilities :: Capabilities
  mappedDocument :: TextDocument
  mappings :: "Mapping list"
  getSourceRange :: "Position \<Rightarrow> Position \<Rightarrow> MappedRange option"
  getSourceRanges :: "Position \<Rightarrow> Position \<Rightarrow> MappedRange list"

record SourceFile =
  getTextDocument :: TextDocument
  getTemplateFormattingScript_sourceMap :: "SourceMap option"
  docLsScripts_sourceMaps :: "SourceMap option list"
  getCssSourceMaps :: "SourceMap list"
  getHtmlSourceMaps :: "SourceMap list"
  getPugSourceMaps :: "SourceMap list"

type_synonym Formatter = "TextDocument \<Rightarrow> FormattingOptions \<Rightarrow> unit TextEdit list"

record Formatters =
  html_formatter :: Formatter
  pug_formatter :: Formatter
  css_formatter :: Formatter
  less_formatter :: Formatter
  scss_formatter :: Formatter
  postcss_formatter :: Formatter

text \<open>
  What \<^verbatim>\<open>register\<close> takes from its context: the construction of the source file
  of a document, its update to a new document, and the formatting of the script
  language service on a mapped document.
\<close>

record Services =
  createSourceFile :: "TextDocument \<Rightarrow> SourceFile"
  sourceFile_update :: "SourceFile \<Rightarrow> TextDocument \<Rightarrow> SourceFile"
  doFormatting :: Formatter

text \<open>
  Modelled from the spec: \<^verbatim>\<open>transformTextEdit\<close> of the transforms package is not among
  the sources. The spec: an edit is translated by translating its range and keeping
  its \<^verbatim>\<open>newText\<close> unmodified; an edit whose range maps to no range on the other side is
  dropped.
\<close>

definition transformTextEdit ::
  "'a TextEdit \<Rightarrow> ('a Range_scheme \<Rightarrow> 'b Range_scheme option) \<Rightarrow> 'b TextEdit option" where
  "transformTextEdit textEdit getOtherRange =
     (case getOtherRange (edit_range textEdit) of
        None \<Rightarrow> None
      | Some r \<Rightarrow> Some \<lparr>edit_range = r, newText = newText textEdit\<rparr>)"

text \<open>
  The inner loop of the html, pug and css passes (the three bodies are the same):
  every backend edit is transformed through the source map and pushed when the
  transformation yields an edit.
\<close>

fun transformEdits_loop :: "SourceMap \<Rightarrow> unit TextEdit list \<Rightarrow> VueTextEdit list \<Rightarrow> VueTextEdit list" where
  "transformEdits_loop sourceMap [] result = result"
| "transformEdits_loop sourceMap (edit # edits) result =
     (case transformTextEdit edit (\<lambda>r. getSourceRange sourceMap (range_start r) (range_end r)) of
        None \<Rightarrow> transformEdits_loop sourceMap edits result
      | Some vueEdit \<Rightarrow> transformEdits_loop sourceMap edits (result @ [vueEdit]))"

fun getHtmlFormattingEdits_loop ::
  "Formatters \<Rightarrow> FormattingOptions \<Rightarrow> SourceMap list \<Rightarrow> VueTextEdit list \<Rightarrow> VueTextEdit list" where
  "getHtmlFormattingEdits_loop formatters options [] result = result"
| "getHtmlFormattingEdits_loop formatters options (sourceMap # sourceMaps) result =
     (let htmlEdits = html_formatter formatters (mappedDocument sourceMap) options
      in getHtmlFormattingEdits_loop formatters options sourceMaps
           (transformEdits_loop sourceMap htmlEdits result))"

definition getHtmlFormattingEdits :: "Formatters \<Rightarrow> SourceFile \<Rightarrow> FormattingOptions \<Rightarrow> VueTextEdit list" where
  "getHtmlFormattingEdits formatters sourceFile options =
     getHtmlFormattingEdits_loop formatters options (getHtmlSourceMaps sourceFile) []"

fun getPugFormattingEdits_loop ::
  "Formatters \<Rightarrow> FormattingOptions \<Rightarrow> SourceMap list \<Rightarrow> VueTextEdit list \<Rightarrow> VueTextEdit list" where
  "getPugFormattingEdits_loop formatters options [] result = result"
| "getPugFormattingEdits_loop formatters options (sourceMap # sourceMaps) result =
     (let pugEdits = pug_formatter formatters (mappedDocument sourceMap) options
      in getPugFormattingEdits_loop formatters options sourceMaps
           (transformEdits_loop sourceMap pugEdits result))"

definition getPugFormattingEdits :: "Formatters \<Rightarrow> SourceFile \<Rightarrow> FormattingOptions \<Rightarrow> VueTextEdit list" where
  "getPugFormattingEdits formatters sourceFile options =
     getPugFormattingEdits_loop formatters options (getPugSourceMaps sourceFile) []"

text \<open>
  \<^verbatim>\<open>formatters[languageId]\<close> behind the guard that the language identifier is one of
  \<^verbatim>\<open>css\<close>, \<^verbatim>\<open>less\<close>, \<^verbatim>\<open>scss\<close> and \<^verbatim>\<open>postcss\<close>.
\<close>

fun getCssFormattingEdits_loop ::
  "Formatters \<Rightarrow> FormattingOptions \<Rightarrow> SourceMap list \<Rightarrow> VueTextEdit list \<Rightarrow> VueTextEdit list" where
  "getCssFormattingEdits_loop formatters options [] result = result"
| "getCssFormattingEdits_loop formatters options (sourceMap # sourceMaps) result =
     (if \<not> formatting (map_capabilities sourceMap)
      then getCssFormattingEdits_loop formatters options sourceMaps result
      else
        (let languageId = languageId (mappedDocument sourceMap) in
         if languageId \<noteq> ''css'' \<and> languageId \<noteq> ''less''
            \<and> languageId \<noteq> ''scss'' \<and> languageId \<noteq> ''postcss''
         then getCssFormattingEdits_loop formatters options sourceMaps result
         else
           (let formatter =
                  (if languageId = ''css'' then css_formatter formatters
                   else if languageId = ''less'' then less_formatter formatters
                   else if languageId = ''scss'' then scss_formatter formatters
                   else postcss_formatter formatters);
                cssEdits = formatter (mappedDocument sourceMap) options
            in getCssFormattingEdits_loop formatters options sourceMaps
                 (transformEdits_loop sourceMap cssEdits result))))"

definition getCssFormattingEdits :: "Formatters \<Rightarrow> SourceFile \<Rightarrow> FormattingOptions \<Rightarrow> VueTextEdit list" where
  "getCssFormattingEdits formatters sourceFile options =
     getCssFormattingEdits_loop formatters options (getCssSourceMaps sourceFile) []"

text \<open>The three nested loops of \<^verbatim>\<open>getTsFormattingEdits\<close>, innermost first.\<close>

fun tsRanges_loop :: "string \<Rightarrow> MappedRange list \<Rightarrow> VueTextEdit list \<Rightarrow> VueTextEdit list" where
  "tsRanges_loop text [] result = result"
| "tsRanges_loop text (vueRange # vueRanges) result =
     (if \<not> formatting (capabilities (range_data vueRange))
      then tsRanges_loop text vueRanges result
      else tsRanges_loop text vueRanges (result @ [\<lparr>edit_range = vueRange, newText = text\<rparr>]))"

fun tsEdits_loop :: "SourceMap \<Rightarrow> unit TextEdit list \<Rightarrow> VueTextEdit list \<Rightarrow> VueTextEdit list" where
  "tsEdits_loop sourceMap [] result = result"
| "tsEdits_loop sourceMap (textEdit # textEdits) result =
     tsEdits_loop sourceMap textEdits
       (tsRanges_loop (newText textEdit)
          (getSourceRanges sourceMap (range_start (edit_range textEdit)) (range_end (edit_range textEdit)))
          result)"

fun getTsFormattingEdits_loop ::
  "Services \<Rightarrow> FormattingOptions \<Rightarrow> SourceMap list \<Rightarrow> VueTextEdit list \<Rightarrow> VueTextEdit list" where
  "getTsFormattingEdits_loop services options [] result = result"
| "getTsFormattingEdits_loop services options (sourceMap # sourceMaps) result =
     (if \<not> formatting (map_capabilities sourceMap)
      then getTsFormattingEdits_loop services options sourceMaps result
      else
        (let textEdits = doFormatting services (mappedDocument sourceMap) options
         in getTsFormattingEdits_loop services options sourceMaps
              (tsEdits_loop sourceMap textEdits result)))"

text \<open>\<^verbatim>\<open>shared.notEmpty\<close> keeps the elements that are neither \<^verbatim>\<open>null\<close> nor \<^verbatim>\<open>undefined\<close>.\<close>

fun notEmpty_filter :: "'a option list \<Rightarrow> 'a list" where
  "notEmpty_filter [] = []"
| "notEmpty_filter (None # xs) = notEmpty_filter xs"
| "notEmpty_filter (Some x # xs) = x # notEmpty_filter xs"

definition tsSourceMaps :: "SourceFile \<Rightarrow> SourceMap list" where
  "tsSourceMaps sourceFile =
     notEmpty_filter (getTemplateFormattingScript_sourceMap sourceFile # docLsScripts_sourceMaps sourceFile)"

definition getTsFormattingEdits :: "Services \<Rightarrow> SourceFile \<Rightarrow> FormattingOptions \<Rightarrow> VueTextEdit list" where
  "getTsFormattingEdits services sourceFile options =
     getTsFormattingEdits_loop services options (tsSourceMaps sourceFile) []"

text \<open>
  \<^verbatim>\<open>patchInterpolationIndent\<close>. The removal indent is read from the last line before
  the loop changes it; the base indent is the leading white space of the text
  between the start of the line and the start of the span.
\<close>

definition getRemoveIndent :: "string list \<Rightarrow> string" where
  "getRemoveIndent lines =
     (let lastLine = lines ! (length lines - 1)
      in substr lastLine 0 (length lastLine - length (trimStart lastLine)))"

definition getBaseIndent :: "TextDocument \<Rightarrow> Mapping \<Rightarrow> string" where
  "getBaseIndent document maped =
     (let startPos = positionAt document (start_offset (sourceRange maped));
          startLineText = getText_range document
            \<lparr>range_start = startPos, range_end = \<lparr>line = line startPos, character = 0\<rparr>\<rparr>
      in substr startLineText 0 (length startLineText - length (trimStart startLineText)))"

definition patchLine :: "string \<Rightarrow> string \<Rightarrow> string \<Rightarrow> string" where
  "patchLine removeIndent baseIndent ln =
     (if startsWith ln removeIndent then replace ln removeIndent baseIndent
      else replace baseIndent removeIndent [] @ ln)"

function patchLines_loop :: "string \<Rightarrow> string \<Rightarrow> nat \<Rightarrow> string list \<Rightarrow> string list" where
  "patchLines_loop removeIndent baseIndent i lines =
     (if i < length lines
      then patchLines_loop removeIndent baseIndent (i + 1)
             (lines[i := patchLine removeIndent baseIndent (lines ! i)])
      else lines)"
  by pat_completeness auto
termination
  by (relation "measure (\<lambda>(removeIndent, baseIndent, i, lines). length lines - i)") auto

declare patchLines_loop.simps [simp del]

definition patchText :: "string \<Rightarrow> string \<Rightarrow> string" where
  "patchText baseIndent text =
     (let lines = split text [CHR 0x0A];
          removeIndent = getRemoveIndent lines
      in join (patchLines_loop removeIndent baseIndent 1 lines) [CHR 0x0A])"

fun patchInterpolationIndent_loop ::
  "TextDocument \<Rightarrow> Mapping list \<Rightarrow> unit TextEdit list \<Rightarrow> unit TextEdit list" where
  "patchInterpolationIndent_loop document [] indentTextEdits = indentTextEdits"
| "patchInterpolationIndent_loop document (maped # rest) indentTextEdits =
     (if \<not> formatting (capabilities (data maped))
      then patchInterpolationIndent_loop document rest indentTextEdits
      else
        (let textRange = \<lparr>range_start = positionAt document (start_offset (sourceRange maped)),
                          range_end = positionAt document (end_offset (sourceRange maped))\<rparr>;
             text = getText_range document textRange
         in if indexOf text [CHR 0x0A] = None
            then patchInterpolationIndent_loop document rest indentTextEdits
            else patchInterpolationIndent_loop document rest
                   (indentTextEdits @
                      [\<lparr>edit_range = textRange,
                        newText = patchText (getBaseIndent document maped) text\<rparr>])))"

definition patchInterpolationIndent :: "SourceFile \<Rightarrow> unit TextEdit list" where
  "patchInterpolationIndent sourceFile =
     (case getTemplateFormattingScript_sourceMap sourceFile of
        None \<Rightarrow> []
      | Some tsSourceMap \<Rightarrow>
          patchInterpolationIndent_loop (getTextDocument sourceFile) (mappings tsSourceMap) [])"

text \<open>
  The function \<^verbatim>\<open>register\<close> returns. An exception of \<^verbatim>\<open>applyEdits\<close> ends the run:
  \<open>and_then\<close> passes it on. \<open>formatPasses\<close> is the part up to the document after
  the indentation pass; \<open>register\<close> compares its text with the original one.
\<close>

definition and_then :: "error + 'a \<Rightarrow> ('a \<Rightarrow> error + 'b) \<Rightarrow> error + 'b" where
  "and_then r f = (case r of Inl e \<Rightarrow> Inl e | Inr x \<Rightarrow> f x)"

definition applyPass ::
  "Services \<Rightarrow> TextDocument \<times> SourceFile \<Rightarrow> VueTextEdit list \<Rightarrow> VueTextEdit list
     \<Rightarrow> error + TextDocument \<times> SourceFile" where
  "applyPass services state edits1 edits2 =
     (case state of (newDocument, sourceFile) \<Rightarrow>
        if length edits1 + length edits2 > 0 then
          and_then (applyEdits newDocument (edits1 @ edits2)) (\<lambda>text.
            (let newDocument' = TextDocument_create (uri newDocument) (languageId newDocument)
                                  (version newDocument + 1) text
             in Inr (newDocument', sourceFile_update services sourceFile newDocument')))
        else Inr (newDocument, sourceFile))"

definition formatPasses ::
  "Services \<Rightarrow> Formatters \<Rightarrow> TextDocument \<Rightarrow> FormattingOptions \<Rightarrow> error + TextDocument" where
  "formatPasses services formatters document options =
     (let sourceFile = createSourceFile services document;
          pugEdits = getPugFormattingEdits formatters sourceFile options;
          htmlEdits = getHtmlFormattingEdits formatters sourceFile options
      in and_then (applyPass services (document, sourceFile) pugEdits htmlEdits)
           (\<lambda>(newDocument, sourceFile).
              (let tsEdits = getTsFormattingEdits services sourceFile options;
                   cssEdits = getCssFormattingEdits formatters sourceFile options
               in and_then (applyPass services (newDocument, sourceFile) tsEdits cssEdits)
                    (\<lambda>(newDocument, sourceFile).
                       (let indentTextEdits = patchInterpolationIndent sourceFile
                        in and_then (applyEdits newDocument indentTextEdits) (\<lambda>text.
                             Inr (TextDocument_create (uri newDocument) (languageId newDocument)
                                    (version newDocument + 1) text)))))))"

definition register ::
  "Services \<Rightarrow> Formatters \<Rightarrow> TextDocument \<Rightarrow> FormattingOptions \<Rightarrow> error + unit TextEdit list option" where
  "register services formatters document options =
     and_then (formatPasses services formatters document options) (\<lambda>newDocument.
       if getText newDocument = getText document then Inr None
       else
         (let editRange = \<lparr>range_start = positionAt document 0,
                           range_end = positionAt document (length (getText document))\<rparr>;
              textEdit = \<lparr>edit_range = editRange, newText = getText newDocument\<rparr>
          in Inr (Some [textEdit])))"

section \<open>Custom blocks (vue-sfc-customblocks.ts)\<close>

record SfcBlock =
  name :: string
  block_type :: string
  lang :: string
  content :: string

record Sfc =
  customBlocks :: "SfcBlock list"

text \<open>
  Modelled from the spec: \<^verbatim>\<open>enableAllFeatures\<close> of the generators' utilities is not
  among the sources. The spec: the helper is the default for plugins that need no
  fine-grained gating; a verbatim custom-block body is fully capable for all
  operations. The argument overrides flags; the plugin passes the empty object.
\<close>

definition enableAllFeatures :: "(Capabilities \<Rightarrow> Capabilities) \<Rightarrow> Capabilities" where
  "enableAllFeatures override =
     override \<lparr>formatting = True, completion = True, diagnostics = True,
               hover = True, semanticTokens = True, references = True\<rparr>"

text \<open>The decimal digits of an index, as string concatenation with a number writes them.\<close>

definition digit_char :: "nat \<Rightarrow> char" where
  "digit_char d = ''0123456789'' ! d"

function toString :: "nat \<Rightarrow> string" where
  "toString n = (if n < 10 then [digit_char n] else toString (n div 10) @ [digit_char (n mod 10)])"
  by pat_completeness auto
termination
  by (relation "measure id") auto

declare toString.simps [simp del]

definition isDigit :: "char \<Rightarrow> bool" where
  "isDigit c = (c \<in> set ''0123456789'')"

definition digit_value :: "char \<Rightarrow> nat" where
  "digit_value c = of_char c - of_char CHR ''0''"

text \<open>\<^verbatim>\<open>parseInt\<close> on a non-empty string of decimal digits (what \<^verbatim>\<open>\d+\<close> matches).\<close>

definition parseInt :: "string \<Rightarrow> nat" where
  "parseInt ds = foldl (\<lambda>acc c. 10 * acc + digit_value c) 0 ds"

text \<open>
  The regular expression \<^verbatim>\<open>/^(.*)\.customBlock_([^_]+)_(\d+)\.([^.]+)$/\<close>. The list
  \<open>customBlockReg_matches\<close> holds the ways the expression matches the whole
  string, as the four groups, in the order in which backtracking finds them:
  every quantifier is greedy and tries the longest piece first. The dot matches
  no line terminator; the negated classes match any other code unit.
  \<^verbatim>\<open>match\<close> returns the first one.
\<close>

definition isLineTerminator :: "char \<Rightarrow> bool" where
  "isLineTerminator c = (c = CHR 0x0A \<or> c = CHR 0x0D)"

definition reg_digits_dot_rest ::
  "string \<Rightarrow> string \<Rightarrow> string \<Rightarrow> (string \<times> string \<times> string \<times> string) list" where
  \<comment> \<open>\<^verbatim>\<open>(\d+)\.([^.]+)$\<close> on the rest \<open>r\<close>, after the groups \<open>g1\<close> and \<open>g2\<close>\<close>
  "reg_digits_dot_rest g1 g2 r =
     concat (map (\<lambda>n.
       (let g3 = take n r; r' = drop n r in
        if (\<forall>c \<in> set g3. isDigit c) \<and> prefix ''.'' r' then
          (let g4 = drop 1 r' in
           if g4 \<noteq> [] \<and> CHR ''.'' \<notin> set g4 then [(g1, g2, g3, g4)] else [])
        else []))
       (rev [1..<Suc (length r)]))"

definition reg_type_underscore ::
  "string \<Rightarrow> string \<Rightarrow> (string \<times> string \<times> string \<times> string) list" where
  \<comment> \<open>\<^verbatim>\<open>([^_]+)_\<close> and what follows it, on the rest \<open>r\<close>, after the group \<open>g1\<close>\<close>
  "reg_type_underscore g1 r =
     concat (map (\<lambda>n.
       (let g2 = take n r; r' = drop n r in
        if CHR ''_'' \<notin> set g2 \<and> prefix ''_'' r' then reg_digits_dot_rest g1 g2 (drop 1 r')
        else []))
       (rev [1..<Suc (length r)]))"

definition customBlockReg_matches :: "string \<Rightarrow> (string \<times> string \<times> string \<times> string) list" where
  \<comment> \<open>\<^verbatim>\<open>^(.*)\.customBlock_\<close> and what follows it\<close>
  "customBlockReg_matches s =
     concat (map (\<lambda>n.
       (let g1 = take n s; r = drop n s in
        if (\<forall>c \<in> set g1. \<not> isLineTerminator c) \<and> prefix ''.customBlock_'' r
        then reg_type_underscore g1 (drop (length ''.customBlock_'') r)
        else []))
       (rev [0..<Suc (length s)]))"

definition match_customBlockReg :: "string \<Rightarrow> (string \<times> string \<times> string \<times> string) option" where
  "match_customBlockReg s =
     (case customBlockReg_matches s of [] \<Rightarrow> None | m # _ \<Rightarrow> Some m)"

function getEmbeddedFileNames_loop :: "string \<Rightarrow> SfcBlock list \<Rightarrow> nat \<Rightarrow> string list \<Rightarrow> string list" where
  "getEmbeddedFileNames_loop fileName blocks i names =
     (if i < length blocks then
        (let customBlock = blocks ! i
         in getEmbeddedFileNames_loop fileName blocks (i + 1)
              (names @ [fileName @ ''.customBlock_'' @ block_type customBlock @ ''_''
                          @ toString i @ ''.'' @ lang customBlock]))
      else names)"
  by pat_completeness auto
termination
  by (relation "measure (\<lambda>(fileName, blocks, i, names). length blocks - i)") auto

declare getEmbeddedFileNames_loop.simps [simp del]

definition getEmbeddedFileNames :: "string \<Rightarrow> Sfc \<Rightarrow> string list" where
  "getEmbeddedFileNames fileName sfc = getEmbeddedFileNames_loop fileName (customBlocks sfc) 0 []"

text \<open>A content chunk: text, name of the source, offset in the source, capabilities.\<close>

type_synonym Chunk = "string \<times> string \<times> nat \<times> Capabilities"

record EmbeddedFile =
  fileName :: string
  file_content :: "Chunk list"

text \<open>
  \<^verbatim>\<open>resolveEmbeddedFile\<close> pushes onto the content of the embedded file; the model
  returns the file. An index beyond the custom blocks yields \<^verbatim>\<open>undefined\<close>, and
  reading its content raises a TypeError.
\<close>

definition resolveEmbeddedFile :: "string \<Rightarrow> Sfc \<Rightarrow> EmbeddedFile \<Rightarrow> error + EmbeddedFile" where
  "resolveEmbeddedFile unused_fileName sfc embeddedFile =
     (case match_customBlockReg (fileName embeddedFile) of
        None \<Rightarrow> Inr embeddedFile
      | Some (g1, g2, g3, g4) \<Rightarrow>
          (let index = parseInt g3 in
           if index < length (customBlocks sfc) then
             (let customBlock = customBlocks sfc ! index
              in Inr (embeddedFile\<lparr>file_content := file_content embeddedFile @
                        [(content customBlock, name customBlock, 0, enableAllFeatures (\<lambda>x. x))]\<rparr>))
           else Inl TypeError))"

section \<open>Internal item ids (vue-template.ts)\<close>

record InternalItemId =
  itemType :: string
  itemArgs :: "string list"

definition createInternalItemId :: "string \<Rightarrow> string list \<Rightarrow> string" where
  "createInternalItemId type args = ''__VLS_::'' @ type @ ''::'' @ join args '',''"

text \<open>
  \<^verbatim>\<open>strs[2].split(',')\<close> raises a TypeError when the key has fewer than three
  pieces; a key that does not start with the sentinel falls off the end of the
  function, which returns \<^verbatim>\<open>undefined\<close>. \<^verbatim>\<open>strs[1]\<close> exists whenever the key
  starts with the sentinel.
\<close>

definition readInternalItemId :: "string \<Rightarrow> error + InternalItemId option" where
  "readInternalItemId key =
     (if startsWith key ''__VLS_::'' then
        (let strs = split key ''::'' in
         if length strs < 3 then Inl TypeError
         else Inr (Some \<lparr>itemType = strs ! 1, itemArgs = split (strs ! 2) '',''\<rparr>))
      else Inr None)"

section \<open>The template service plugin (vue-template.ts)\<close>

subsection \<open>Completion items after the markup completion\<close>

datatype Documentation = DocString string | MarkupContent string string

text \<open>
  The fields of a completion item that the final loop of \<^verbatim>\<open>afterHtmlCompletion\<close>
  reads and writes. The second argument of \<open>MarkupContent\<close> is its \<^verbatim>\<open>value\<close>.
\<close>

record CompletionItem =
  label :: string
  kind :: "nat option"
  sortText :: "string option"
  documentation :: "Documentation option"

text \<open>
  \<^verbatim>\<open>typeof item.documentation === 'string' ? item.documentation : item.documentation?.value\<close>
\<close>

definition itemIdKey :: "'m CompletionItem_scheme \<Rightarrow> string option" where
  "itemIdKey item =
     (case documentation item of
        None \<Rightarrow> None
      | Some (DocString s) \<Rightarrow> Some s
      | Some (MarkupContent k v) \<Rightarrow> Some v)"

text \<open>\<^verbatim>\<open>itemIdKey ? readInternalItemId(itemIdKey) : undefined\<close>: an empty string is falsy.\<close>

definition readItemId :: "'m CompletionItem_scheme \<Rightarrow> error + InternalItemId option" where
  "readItemId item =
     (case itemIdKey item of
        None \<Rightarrow> Inr None
      | Some key \<Rightarrow> if key = [] then Inr None else readInternalItemId key)"

text \<open>\<^verbatim>\<open>item.sortText ?? item.label\<close>\<close>

definition sortTextOrLabel :: "'m CompletionItem_scheme \<Rightarrow> string" where
  "sortTextOrLabel item = (case sortText item of None \<Rightarrow> label item | Some t \<Rightarrow> t)"

text \<open>
  The body of the loop for one item. \<open>componentNames\<close> are the hyphenated component
  names; \<^verbatim>\<open>const [componentName] = itemId.args\<close> is \<^verbatim>\<open>undefined\<close> on an empty array,
  which differs from \<^verbatim>\<open>'*'\<close>.
\<close>

definition patchItem ::
  "(string \<Rightarrow> string) \<Rightarrow> string list \<Rightarrow> CompletionItem \<Rightarrow> InternalItemId option \<Rightarrow> CompletionItem" where
  "patchItem hyphenateTag componentNames item0 itemId =
     (let item = (if itemId \<noteq> None then item0\<lparr>documentation := None\<rparr> else item0) in
      if kind item = Some 10 \<and> hyphenateTag (label item) \<in> set componentNames then
        item\<lparr>kind := Some 6, sortText := Some (CHR 0x00 # sortTextOrLabel item)\<rparr>
      else if itemId \<noteq> None
              \<and> (itemType (the itemId) = ''componentProp'' \<or> itemType (the itemId) = ''componentEvent'') then
        (let componentName = (case itemArgs (the itemId) of [] \<Rightarrow> None | a # _ \<Rightarrow> Some a);
             item1 = (if componentName \<noteq> Some ''*''
                      then item\<lparr>sortText := Some (CHR 0x00 # sortTextOrLabel item)\<rparr> else item)
         in if itemType (the itemId) = ''componentProp'' then
              (if componentName \<noteq> Some ''*'' then item1\<lparr>kind := Some 5\<rparr> else item1)
            else item1\<lparr>kind := Some (if componentName \<noteq> Some ''*'' then 3 else 23)\<rparr>)
      else if label item = ''v-if'' \<or> label item = ''v-else-if''
              \<or> label item = ''v-else'' \<or> label item = ''v-for'' then
        item\<lparr>kind := Some 14, sortText := Some (CHR 0x03 # sortTextOrLabel item)\<rparr>
      else if startsWith (label item) ''v-'' then
        item\<lparr>kind := Some 3, sortText := Some (CHR 0x02 # sortTextOrLabel item)\<rparr>
      else
        item\<lparr>sortText := Some (CHR 0x01 # sortTextOrLabel item)\<rparr>)"

text \<open>
  The loop over the items of the completion list (the last loop of
  \<^verbatim>\<open>afterHtmlCompletion\<close>, which runs over every item of the list, the ones the
  first part of the function pushed included). A TypeError of
  \<^verbatim>\<open>readInternalItemId\<close> ends it.
\<close>

fun afterHtmlCompletion_items ::
  "(string \<Rightarrow> string) \<Rightarrow> string list \<Rightarrow> CompletionItem list \<Rightarrow> error + CompletionItem list" where
  "afterHtmlCompletion_items hyphenateTag componentNames [] = Inr []"
| "afterHtmlCompletion_items hyphenateTag componentNames (item # items) =
     and_then (readItemId item) (\<lambda>itemId.
       and_then (afterHtmlCompletion_items hyphenateTag componentNames items) (\<lambda>rest.
         Inr (patchItem hyphenateTag componentNames item itemId # rest)))"

subsection \<open>Diagnostics\<close>

record CompilerLoc =
  loc_start_offset :: nat
  loc_end_offset :: nat

record CompilerError =
  error_code :: nat
  error_message :: string
  loc :: "CompilerLoc option"

record SfcTemplate =
  errors :: "CompilerError list"
  warnings :: "CompilerError list"

text \<open>The source file of a map when it is a \<^verbatim>\<open>VueFile\<close>; \<open>sfc_template\<close> is \<^verbatim>\<open>sfc.template\<close>.\<close>

record VueFile =
  vueFileName :: string
  sfc_template :: "SfcTemplate option"

record Diagnostic =
  diag_range :: Range
  severity :: "nat option"
  code :: "nat option"
  source :: "string option"
  message :: string

datatype TokenType =
  StartCommentTag | Comment | EndCommentTag | StartTagOpen | StartTagClose | StartTagSelfClose
  | StartTag | EndTagOpen | EndTagClose | EndTag | DelimiterAssign | AttributeName
  | AttributeValue | StartDoctypeTag | Doctype | EndDoctypeTag | Content | Whitespace
  | Unknown | Script | Styles

text \<open>
  A token of the markup scanner. The scanner is the list of the tokens it has yet
  to return; at the end of the list \<^verbatim>\<open>scan()\<close> returns \<^verbatim>\<open>EOS\<close>.
\<close>

record ScannerToken =
  tokenType :: TokenType
  tokenOffset :: nat
  tokenLength :: nat
  tokenText :: string

record SemanticTokensLegend =
  tokenTypes :: "string list"
  tokenModifiers :: "string list"

text \<open>\<^verbatim>\<open>[line, character, length, tokenType, modifiers]\<close>\<close>

type_synonym SemanticToken = "nat \<times> nat \<times> nat \<times> int \<times> nat"

text \<open>
  What the plugin takes from its surroundings: the options of \<^verbatim>\<open>create\<close>, the
  base service, the maps of the virtual file of a document (\<open>None\<close> when the
  document has no virtual file; for each map the source file when it is a
  \<^verbatim>\<open>VueFile\<close>), the component names of a source file and the hyphenation of tags.
\<close>

record TemplateContext =
  isSupportedDocument :: "TextDocument \<Rightarrow> bool"
  getScanner :: "TextDocument \<Rightarrow> ScannerToken list option"
  base_provideDiagnostics :: "TextDocument \<Rightarrow> Diagnostic list option"
  base_provideDocumentSemanticTokens ::
    "TextDocument \<Rightarrow> Range \<Rightarrow> SemanticTokensLegend \<Rightarrow> SemanticToken list option"
  getMaps :: "TextDocument \<Rightarrow> VueFile option list option"
  getComponentNames :: "VueFile \<Rightarrow> string list"
  hyphenateTag :: "string \<Rightarrow> string"

definition onCompilerError :: "TextDocument \<Rightarrow> CompilerError \<Rightarrow> nat \<Rightarrow> Diagnostic" where
  "onCompilerError document err sev =
     (let templateHtmlRange_start = (case loc err of None \<Rightarrow> 0 | Some l \<Rightarrow> loc_start_offset l);
          templateHtmlRange_end = (case loc err of None \<Rightarrow> 0 | Some l \<Rightarrow> loc_end_offset l);
          errorMessage = error_message err
      in \<lparr>diag_range = \<lparr>range_start = positionAt document templateHtmlRange_start,
                         range_end = positionAt document templateHtmlRange_end\<rparr>,
          severity = Some sev,
          code = Some (error_code err),
          source = Some ''vue'',
          message = errorMessage\<rparr>)"

fun onCompilerErrors_loop ::
  "TextDocument \<Rightarrow> nat \<Rightarrow> CompilerError list \<Rightarrow> Diagnostic list \<Rightarrow> Diagnostic list" where
  "onCompilerErrors_loop document sev [] templateErrors = templateErrors"
| "onCompilerErrors_loop document sev (err # errs) templateErrors =
     onCompilerErrors_loop document sev errs (templateErrors @ [onCompilerError document err sev])"

definition templateErrors_of :: "TextDocument \<Rightarrow> VueFile \<Rightarrow> Diagnostic list" where
  "templateErrors_of document sourceVirtualFile =
     (case sfc_template sourceVirtualFile of
        None \<Rightarrow> []
      | Some template \<Rightarrow>
          onCompilerErrors_loop document 2 (warnings template)
            (onCompilerErrors_loop document 1 (errors template) []))"

text \<open>
  The loop over the maps returns in its first iteration on a \<^verbatim>\<open>VueFile\<close>; when no
  map has one the function returns \<^verbatim>\<open>undefined\<close>.
\<close>

fun provideDiagnostics_loop ::
  "TextDocument \<Rightarrow> Diagnostic list option \<Rightarrow> VueFile option list \<Rightarrow> Diagnostic list option" where
  "provideDiagnostics_loop document originalResult [] = None"
| "provideDiagnostics_loop document originalResult (None # maps) =
     provideDiagnostics_loop document originalResult maps"
| "provideDiagnostics_loop document originalResult (Some sourceVirtualFile # maps) =
     Some ((case originalResult of None \<Rightarrow> [] | Some ds \<Rightarrow> ds)
           @ templateErrors_of document sourceVirtualFile)"

definition provideDiagnostics :: "TemplateContext \<Rightarrow> TextDocument \<Rightarrow> Diagnostic list option" where
  "provideDiagnostics ctx document =
     (if \<not> isSupportedDocument ctx document then None
      else
        (let originalResult = base_provideDiagnostics ctx document in
         case getMaps ctx document of
           None \<Rightarrow> None
         | Some maps \<Rightarrow> provideDiagnostics_loop document originalResult maps))"

subsection \<open>Semantic tokens\<close>

text \<open>\<^verbatim>\<open>xs.indexOf(x)\<close> on an array: the first index, or \<^verbatim>\<open>-1\<close>.\<close>

fun array_indexOf :: "'a list \<Rightarrow> 'a \<Rightarrow> int" where
  "array_indexOf [] x = - 1"
| "array_indexOf (y # ys) x =
     (if y = x then 0
      else (let r = array_indexOf ys x in if r = - 1 then - 1 else r + 1))"

definition componentTokenType :: "SemanticTokensLegend \<Rightarrow> int" where
  "componentTokenType legend =
     (let tokenType = array_indexOf (tokenTypes legend) ''component''
      in if tokenType = - 1 then array_indexOf (tokenTypes legend) ''class'' else tokenType)"

text \<open>
  The body of the \<^verbatim>\<open>while\<close> loop for a token that does not end the loop, and
  the loop over the tokens of the scanner: it returns the scanner it leaves
  behind (a \<^verbatim>\<open>break\<close> has consumed the token it stops at) and the result.
  \<open>components\<close> holds the elements of the set of component names.
\<close>

definition scan_token ::
  "TextDocument \<Rightarrow> string list \<Rightarrow> SemanticTokensLegend \<Rightarrow> nat
     \<Rightarrow> ScannerToken \<Rightarrow> SemanticToken list \<Rightarrow> SemanticToken list" where
  "scan_token document components legend offsetRange_start t result =
     (if tokenOffset t \<ge> offsetRange_start \<and> (tokenType t = StartTag \<or> tokenType t = EndTag) then
        (if tokenText t \<in> set components \<or> indexOf (tokenText t) ''.'' \<noteq> None then
           (let tokenPosition = positionAt document (tokenOffset t) in
            if tokenText t \<in> set components then
              result @ [(line tokenPosition, character tokenPosition, tokenLength t,
                         componentTokenType legend, 0)]
            else result)
         else result)
      else result)"

fun scan_loop ::
  "TextDocument \<Rightarrow> string list \<Rightarrow> SemanticTokensLegend \<Rightarrow> nat \<Rightarrow> nat
     \<Rightarrow> ScannerToken list \<Rightarrow> SemanticToken list \<Rightarrow> ScannerToken list \<times> SemanticToken list" where
  "scan_loop document components legend offsetRange_start offsetRange_end [] result = ([], result)"
| "scan_loop document components legend offsetRange_start offsetRange_end (t # scanner) result =
     (if tokenOffset t > offsetRange_end then (scanner, result)
      else scan_loop document components legend offsetRange_start offsetRange_end scanner
             (scan_token document components legend offsetRange_start t result))"

fun semanticTokens_maps_loop ::
  "TemplateContext \<Rightarrow> TextDocument \<Rightarrow> Range \<Rightarrow> SemanticTokensLegend \<Rightarrow> VueFile option list
     \<Rightarrow> ScannerToken list \<Rightarrow> SemanticToken list \<Rightarrow> SemanticToken list" where
  "semanticTokens_maps_loop ctx document r legend [] scanner result = result"
| "semanticTokens_maps_loop ctx document r legend (None # maps) scanner result =
     semanticTokens_maps_loop ctx document r legend maps scanner result"
| "semanticTokens_maps_loop ctx document r legend (Some sourceFile # maps) scanner result =
     (let templateScriptData = getComponentNames ctx sourceFile;
          components = templateScriptData @ map (hyphenateTag ctx) templateScriptData;
          offsetRange_start = offsetAt document (range_start r);
          offsetRange_end = offsetAt document (range_end r)
      in case scan_loop document components legend offsetRange_start offsetRange_end scanner result of
           (scanner', result') \<Rightarrow> semanticTokens_maps_loop ctx document r legend maps scanner' result')"

definition provideDocumentSemanticTokens ::
  "TemplateContext \<Rightarrow> TextDocument \<Rightarrow> Range \<Rightarrow> SemanticTokensLegend \<Rightarrow> SemanticToken list option" where
  "provideDocumentSemanticTokens ctx document r legend =
     (if \<not> isSupportedDocument ctx document then None
      else
        (let result = (case base_provideDocumentSemanticTokens ctx document r legend of
                         None \<Rightarrow> [] | Some ts \<Rightarrow> ts) in
         case getScanner ctx document of
           None \<Rightarrow> None
         | Some scanner \<Rightarrow>
             (case getMaps ctx document of
                None \<Rightarrow> None
              | Some maps \<Rightarrow> Some (semanticTokens_maps_loop ctx document r legend maps scanner result))))"

section \<open>Notions used to state the properties\<close>

text \<open>
  The translation of one backend edit through a source map, in the words of the
  spec: the range is translated and \<^verbatim>\<open>newText\<close> is kept; an edit whose range has
  no source range yields nothing.
\<close>

definition translateEdit :: "SourceMap \<Rightarrow> unit TextEdit \<Rightarrow> VueTextEdit list" where
  "translateEdit sourceMap edit =
     (case getSourceRange sourceMap (range_start (edit_range edit)) (range_end (edit_range edit)) of
        None \<Rightarrow> []
      | Some r \<Rightarrow> [\<lparr>edit_range = r, newText = newText edit\<rparr>])"

text \<open>The style backends by language identifier, as a lookup table.\<close>

definition styleFormatter :: "Formatters \<Rightarrow> string \<Rightarrow> Formatter option" where
  "styleFormatter formatters =
     map_of [(''css'', css_formatter formatters), (''less'', less_formatter formatters),
             (''scss'', scss_formatter formatters), (''postcss'', postcss_formatter formatters)]"

text \<open>
  The indentation repair, stated on strings. The removal indent is the leading
  white space of the last line of the span text; an interior line that starts with
  it gets it replaced by the base indent, any other interior line is prefixed
  with the base indent from which the first occurrence of the removal indent is
  removed.
\<close>

definition leadingWhitespace :: "string \<Rightarrow> string" where
  "leadingWhitespace s = takeWhile isWhiteSpace s"

definition removalIndent :: "string \<Rightarrow> string" where
  "removalIndent text = leadingWhitespace (last (split text [CHR 0x0A]))"

definition removeFirst :: "string \<Rightarrow> string \<Rightarrow> string" where
  "removeFirst r b = (case indexOf b r of None \<Rightarrow> b | Some i \<Rightarrow> take i b @ drop (i + length r) b)"

definition repairLine :: "string \<Rightarrow> string \<Rightarrow> string \<Rightarrow> string" where
  "repairLine r b ln = (if prefix r ln then b @ drop (length r) ln else removeFirst r b @ ln)"

definition repairText :: "string \<Rightarrow> string \<Rightarrow> string" where
  "repairText b text =
     (let lines = split text [CHR 0x0A]
      in join (hd lines # map (repairLine (removalIndent text) b) (tl lines)) [CHR 0x0A])"

text \<open>The range and the text of the span of a mapping entry in the document.\<close>

definition spanRange :: "TextDocument \<Rightarrow> Mapping \<Rightarrow> Range" where
  "spanRange document maped =
     \<lparr>range_start = positionAt document (start_offset (sourceRange maped)),
      range_end = positionAt document (end_offset (sourceRange maped))\<rparr>"

definition spanText :: "TextDocument \<Rightarrow> Mapping \<Rightarrow> string" where
  "spanText document maped = getText_range document (spanRange document maped)"

text \<open>The text of the line of an offset, from the start of the line up to the offset.\<close>

definition textBeforeOnLine :: "TextDocument \<Rightarrow> nat \<Rightarrow> string" where
  "textBeforeOnLine document offset =
     getText_range document
       \<lparr>range_start = \<lparr>line = line (positionAt document offset), character = 0\<rparr>,
        range_end = positionAt document offset\<rparr>"

text \<open>
  The repair as claim C1 words it: the base indent is the leading white space of
  the whole line that contains the start of the span, and a line that does not
  start with the removal indent is prefixed with the base indent with the
  removal-indent prefix stripped.
\<close>

definition lineOfOffset :: "TextDocument \<Rightarrow> nat \<Rightarrow> string" where
  "lineOfOffset document offset =
     getText_range document
       \<lparr>range_start = \<lparr>line = line (positionAt document offset), character = 0\<rparr>,
        range_end = \<lparr>line = line (positionAt document offset) + 1, character = 0\<rparr>\<rparr>"

definition stripPrefix :: "string \<Rightarrow> string \<Rightarrow> string" where
  "stripPrefix r b = (if prefix r b then drop (length r) b else b)"

definition claimedRepairLine :: "string \<Rightarrow> string \<Rightarrow> string \<Rightarrow> string" where
  "claimedRepairLine r b ln = (if prefix r ln then b @ drop (length r) ln else stripPrefix r b @ ln)"

definition claimedRepairText :: "string \<Rightarrow> string \<Rightarrow> string" where
  "claimedRepairText b text =
     (let lines = split text [CHR 0x0A]
      in join (hd lines # map (claimedRepairLine (removalIndent text) b) (tl lines)) [CHR 0x0A])"

definition claimedRepair :: "TextDocument \<Rightarrow> Mapping \<Rightarrow> string" where
  "claimedRepair document maped =
     claimedRepairText
       (leadingWhitespace (lineOfOffset document (start_offset (sourceRange maped))))
       (spanText document maped)"

section \<open>Sample data\<close>

definition sample_capabilities :: "bool \<Rightarrow> Capabilities" where
  "sample_capabilities b =
     \<lparr>formatting = b, completion = True, diagnostics = True,
      hover = True, semanticTokens = True, references = True\<rparr>"

definition sample_options :: FormattingOptions where
  "sample_options = \<lparr>tabSize = 2, insertSpaces = True\<rparr>"

definition sample_backendEdit :: "unit TextEdit" where
  "sample_backendEdit =
     \<lparr>edit_range = \<lparr>range_start = \<lparr>line = 0, character = 0\<rparr>,
                      range_end = \<lparr>line = 0, character = 1\<rparr>\<rparr>,
      newText = ''b''\<rparr>"

text \<open>
  A source map that translates every range to itself: \<^verbatim>\<open>getSourceRanges\<close> yields
  the range twice, once under an entry with formatting and once under an entry
  without.
\<close>

definition sample_sourceMap :: "string \<Rightarrow> bool \<Rightarrow> SourceMap" where
  "sample_sourceMap langId b =
     \<lparr>map_capabilities = sample_capabilities b,
      mappedDocument = TextDocument_create ''file:///Widget.vue.x'' langId 1 ''a'',
      mappings = [],
      getSourceRange = (\<lambda>s e. if character s = 0 then Some \<lparr>range_start = s, range_end = e,
                          range_data = \<lparr>capabilities = sample_capabilities True\<rparr>\<rparr> else None),
      getSourceRanges = (\<lambda>s e.
         [\<lparr>range_start = s, range_end = e, range_data = \<lparr>capabilities = sample_capabilities True\<rparr>\<rparr>,
          \<lparr>range_start = s, range_end = e, range_data = \<lparr>capabilities = sample_capabilities False\<rparr>\<rparr>])\<rparr>"

definition sample_vueEdit :: VueTextEdit where
  "sample_vueEdit =
     \<lparr>edit_range = \<lparr>range_start = \<lparr>line = 0, character = 0\<rparr>,
                      range_end = \<lparr>line = 0, character = 1\<rparr>,
                      range_data = \<lparr>capabilities = sample_capabilities True\<rparr>\<rparr>,
      newText = ''b''\<rparr>"

definition sample_formatters :: Formatters where
  "sample_formatters =
     \<lparr>html_formatter = (\<lambda>d opts. []), pug_formatter = (\<lambda>d opts. []),
      css_formatter = (\<lambda>d opts. [sample_backendEdit]), less_formatter = (\<lambda>d opts. []),
      scss_formatter = (\<lambda>d opts. []), postcss_formatter = (\<lambda>d opts. [])\<rparr>"

definition sample_sourceFile :: "TextDocument \<Rightarrow> SourceFile" where
  "sample_sourceFile d =
     \<lparr>getTextDocument = d,
      getTemplateFormattingScript_sourceMap = Some (sample_sourceMap ''typescript'' True),
      docLsScripts_sourceMaps = [None, Some (sample_sourceMap ''typescript'' False)],
      getCssSourceMaps = [],
      getHtmlSourceMaps = [],
      getPugSourceMaps = []\<rparr>"

definition sample_services :: Services where
  "sample_services =
     \<lparr>createSourceFile = sample_sourceFile,
      sourceFile_update = (\<lambda>sf d. sample_sourceFile d),
      doFormatting = (\<lambda>d opts. [sample_backendEdit])\<rparr>"

definition sample_document :: TextDocument where
  "sample_document = TextDocument_create ''file:///Widget.vue'' ''vue'' 1 ''a''"

definition sample_error :: CompilerError where
  "sample_error = \<lparr>error_code = 23, error_message = ''Element is missing end tag.'', loc = None\<rparr>"

definition sample_warning :: CompilerError where
  "sample_warning = \<lparr>error_code = 7, error_message = ''deprecated'', loc = None\<rparr>"

definition sample_backendDiagnostic :: Diagnostic where
  "sample_backendDiagnostic =
     \<lparr>diag_range = \<lparr>range_start = \<lparr>line = 0, character = 0\<rparr>,
                      range_end = \<lparr>line = 0, character = 1\<rparr>\<rparr>,
      severity = Some 3, code = None, source = Some ''html'', message = ''hint''\<rparr>"

definition sample_vueFile :: VueFile where
  "sample_vueFile =
     \<lparr>vueFileName = ''Widget.vue'',
      sfc_template = Some \<lparr>errors = [sample_error], warnings = [sample_warning]\<rparr>\<rparr>"

definition sample_scanner :: "ScannerToken list" where
  "sample_scanner =
     [\<lparr>tokenType = StartTagOpen, tokenOffset = 0, tokenLength = 1, tokenText = ''<''\<rparr>,
      \<lparr>tokenType = StartTag, tokenOffset = 1, tokenLength = 7, tokenText = ''Foo.Bar''\<rparr>,
      \<lparr>tokenType = StartTagSelfClose, tokenOffset = 8, tokenLength = 2, tokenText = ''/>''\<rparr>,
      \<lparr>tokenType = StartTagOpen, tokenOffset = 10, tokenLength = 1, tokenText = ''<''\<rparr>,
      \<lparr>tokenType = StartTag, tokenOffset = 11, tokenLength = 3, tokenText = ''Foo''\<rparr>,
      \<lparr>tokenType = StartTagSelfClose, tokenOffset = 14, tokenLength = 2, tokenText = ''/>''\<rparr>]"

definition sample_templateDocument :: TextDocument where
  "sample_templateDocument =
     TextDocument_create ''file:///Widget.vue.template.html'' ''html'' 1 ''<Foo.Bar/><Foo/>''"

definition sample_context :: TemplateContext where
  "sample_context =
     \<lparr>isSupportedDocument = (\<lambda>d. True),
      getScanner = (\<lambda>d. Some sample_scanner),
      base_provideDiagnostics = (\<lambda>d. Some [sample_backendDiagnostic]),
      base_provideDocumentSemanticTokens = (\<lambda>d r l. None),
      getMaps = (\<lambda>d. Some [None, Some sample_vueFile]),
      getComponentNames = (\<lambda>v. [''Foo'']),
      hyphenateTag = (\<lambda>s. ''foo'')\<rparr>"

text \<open>
  A document whose first line is a template element indented by two spaces, with
  a formatting-capable mapping entry for the element (offsets 2 to 19), as the
  source file of the formatter; and a document whose mapping entry starts inside
  the leading white space of its line (offsets 2 to 7).
\<close>

definition sample_entry :: "nat \<Rightarrow> nat \<Rightarrow> Mapping" where
  "sample_entry s e =
     \<lparr>data = \<lparr>capabilities = sample_capabilities True\<rparr>,
      sourceRange = \<lparr>start_offset = s, end_offset = e\<rparr>,
      mappedRange = \<lparr>start_offset = 0, end_offset = e - s\<rparr>\<rparr>"

definition sample_indentSourceFile :: "string \<Rightarrow> Mapping list \<Rightarrow> SourceFile" where
  "sample_indentSourceFile text entries =
     \<lparr>getTextDocument = TextDocument_create ''file:///Widget.vue'' ''vue'' 1 text,
      getTemplateFormattingScript_sourceMap =
        Some ((sample_sourceMap ''typescript'' True)\<lparr>mappings := entries\<rparr>),
      docLsScripts_sourceMaps = [],
      getCssSourceMaps = [],
      getHtmlSourceMaps = [],
      getPugSourceMaps = []\<rparr>"

definition sample_divText :: string where
  "sample_divText = ''  <div>\<newline>a\<newline>b\<newline></div>''"

definition sample_shallowText :: string where
  "sample_shallowText = ''    a\<newline>b''"

text \<open>
  An item carries the sentinel when the text of its documentation starts with it.
\<close>

definition hasSentinel :: "CompletionItem \<Rightarrow> bool" where
  "hasSentinel item =
     (case itemIdKey item of None \<Rightarrow> False | Some key \<Rightarrow> startsWith key ''__VLS_::'')"

text \<open>
  The groups of the completion items: component tags (kind Property with a
  hyphenated label among the component names) and props or events of a component
  (an internal item id of type \<^verbatim>\<open>componentProp\<close> or \<^verbatim>\<open>componentEvent\<close> whose
  component is not \<^verbatim>\<open>*\<close>); the structural directives; the other labels that
  start with \<^verbatim>\<open>v-\<close>; the remaining items. A prop or event of \<^verbatim>\<open>*\<close> that is no
  component tag belongs to no group. \<open>groupChar\<close> is the code unit a group puts
  before the sort key.
\<close>

datatype ItemGroup = ComponentGroup | GenericGroup | DirectiveGroup | StructuralGroup

fun groupChar :: "ItemGroup \<Rightarrow> char" where
  "groupChar ComponentGroup = CHR 0x00"
| "groupChar GenericGroup = CHR 0x01"
| "groupChar DirectiveGroup = CHR 0x02"
| "groupChar StructuralGroup = CHR 0x03"

fun groupRank :: "ItemGroup \<Rightarrow> nat" where
  "groupRank ComponentGroup = 0"
| "groupRank GenericGroup = 1"
| "groupRank DirectiveGroup = 2"
| "groupRank StructuralGroup = 3"

definition isComponentTag :: "(string \<Rightarrow> string) \<Rightarrow> string list \<Rightarrow> CompletionItem \<Rightarrow> bool" where
  "isComponentTag hyphenate componentNames item =
     (kind item = Some 10 \<and> hyphenate (label item) \<in> set componentNames)"

definition propOrEventOf :: "CompletionItem \<Rightarrow> string option option" where
  "propOrEventOf item =
     (case readItemId item of
        Inr (Some itemId) \<Rightarrow>
          if itemType itemId = ''componentProp'' \<or> itemType itemId = ''componentEvent''
          then Some (case itemArgs itemId of [] \<Rightarrow> None | a # _ \<Rightarrow> Some a)
          else None
      | _ \<Rightarrow> None)"

definition isStructuralDirective :: "string \<Rightarrow> bool" where
  "isStructuralDirective l = (l \<in> {''v-if'', ''v-else-if'', ''v-else'', ''v-for''})"

definition itemGroup :: "(string \<Rightarrow> string) \<Rightarrow> string list \<Rightarrow> CompletionItem \<Rightarrow> ItemGroup option" where
  "itemGroup hyphenate componentNames item =
     (if isComponentTag hyphenate componentNames item then Some ComponentGroup
      else case propOrEventOf item of
        Some componentName \<Rightarrow> if componentName = Some ''*'' then None else Some ComponentGroup
      | None \<Rightarrow>
          if isStructuralDirective (label item) then Some StructuralGroup
          else if startsWith (label item) ''v-'' then Some DirectiveGroup
          else Some GenericGroup)"

text \<open>The order of sort keys: strings compared by code units.\<close>

fun sortsBefore :: "string \<Rightarrow> string \<Rightarrow> bool" where
  "sortsBefore [] [] = False"
| "sortsBefore [] (y # ys) = True"
| "sortsBefore (x # xs) [] = False"
| "sortsBefore (x # xs) (y # ys) =
     ((of_char x :: nat) < of_char y \<or> (x = y \<and> sortsBefore xs ys))"

text \<open>
  The groups as claim C6 words them: every item is in one of the four groups, a
  prop or event of \<^verbatim>\<open>*\<close> by its label.
\<close>

definition claimedGroup :: "(string \<Rightarrow> string) \<Rightarrow> string list \<Rightarrow> CompletionItem \<Rightarrow> ItemGroup" where
  "claimedGroup hyphenate componentNames item =
     (if isComponentTag hyphenate componentNames item
         \<or> (propOrEventOf item \<noteq> None \<and> propOrEventOf item \<noteq> Some (Some ''*''))
      then ComponentGroup
      else if isStructuralDirective (label item) then StructuralGroup
      else if startsWith (label item) ''v-'' then DirectiveGroup
      else GenericGroup)"

definition sample_componentTag :: CompletionItem where
  "sample_componentTag =
     \<lparr>label = ''my-button'', kind = Some 10, sortText = None, documentation = None\<rparr>"

definition sample_componentProp :: CompletionItem where
  "sample_componentProp =
     \<lparr>label = '':size'', kind = Some 12, sortText = None,
      documentation = Some (MarkupContent ''markdown'' ''__VLS_::componentProp::my-button,size'')\<rparr>"

definition sample_globalProp :: CompletionItem where
  "sample_globalProp =
     \<lparr>label = ''class'', kind = Some 12, sortText = None,
      documentation = Some (MarkupContent ''markdown'' ''__VLS_::componentProp::*,class'')\<rparr>"

definition sample_generic :: CompletionItem where
  "sample_generic =
     \<lparr>label = ''id'', kind = Some 12, sortText = None, documentation = Some (DocString ''The id.'')\<rparr>"

definition sample_directive :: CompletionItem where
  "sample_directive =
     \<lparr>label = ''v-show'', kind = Some 12, sortText = None, documentation = None\<rparr>"

definition sample_structural :: CompletionItem where
  "sample_structural =
     \<lparr>label = ''v-if'', kind = Some 12, sortText = None, documentation = None\<rparr>"

definition sample_items :: "CompletionItem list" where
  "sample_items =
     [sample_componentTag, sample_componentProp, sample_globalProp, sample_generic,
      sample_directive, sample_structural]"

definition sample_patchedItems :: "CompletionItem list" where
  "sample_patchedItems =
     [\<lparr>label = ''my-button'', kind = Some 6, sortText = Some (CHR 0x00 # ''my-button''),
       documentation = None\<rparr>,
      \<lparr>label = '':size'', kind = Some 5, sortText = Some (CHR 0x00 # '':size''),
       documentation = None\<rparr>,
      \<lparr>label = ''class'', kind = Some 12, sortText = None, documentation = None\<rparr>,
      \<lparr>label = ''id'', kind = Some 12, sortText = Some (CHR 0x01 # ''id''),
       documentation = Some (DocString ''The id.'')\<rparr>,
      \<lparr>label = ''v-show'', kind = Some 3, sortText = Some (CHR 0x02 # ''v-show''),
       documentation = None\<rparr>,
      \<lparr>label = ''v-if'', kind = Some 14, sortText = Some (CHR 0x03 # ''v-if''),
       documentation = None\<rparr>]"

text \<open>
  A tag token, the token the provider adds for it, and the elements of the set of
  component names of a source file: the names and their hyphenations.
\<close>

definition isTagToken :: "ScannerToken \<Rightarrow> bool" where
  "isTagToken t = (tokenType t = StartTag \<or> tokenType t = EndTag)"

definition componentToken :: "TextDocument \<Rightarrow> SemanticTokensLegend \<Rightarrow> ScannerToken \<Rightarrow> SemanticToken" where
  "componentToken document legend t =
     (line (positionAt document (tokenOffset t)), character (positionAt document (tokenOffset t)),
      tokenLength t, componentTokenType legend, 0)"

definition componentsOf :: "TemplateContext \<Rightarrow> VueFile \<Rightarrow> string list" where
  "componentsOf ctx sourceFile =
     getComponentNames ctx sourceFile @ map (hyphenateTag ctx) (getComponentNames ctx sourceFile)"

text \<open>
  Matching as claim C5 words it for a namespaced tag: on the segment of the tag
  before the first dot.
\<close>

definition claimedComponentMatch :: "TemplateContext \<Rightarrow> VueFile \<Rightarrow> string \<Rightarrow> bool" where
  "claimedComponentMatch ctx sourceFile tagText =
     (takeWhile (\<lambda>c. c \<noteq> CHR ''.'') tagText \<in> set (componentsOf ctx sourceFile))"

definition sample_legend :: SemanticTokensLegend where
  "sample_legend = \<lparr>tokenTypes = [''class'', ''component''], tokenModifiers = []\<rparr>"

definition sample_range :: Range where
  "sample_range = \<lparr>range_start = \<lparr>line = 0, character = 0\<rparr>,
                    range_end = \<lparr>line = 0, character = 16\<rparr>\<rparr>"

definition sample_sfc :: Sfc where
  "sample_sfc =
     \<lparr>customBlocks =
        [\<lparr>name = ''customBlock_0'', block_type = ''docs'', lang = ''md'', content = ''# Widget''\<rparr>,
         \<lparr>name = ''customBlock_1'', block_type = ''my_block'', lang = ''json'', content = ''{}''\<rparr>]\<rparr>"

section \<open>Lemmas on strings\<close>

lemma split_at_no_sep: "\<not> sublist sep s \<Longrightarrow> split_at sep s = [s]"
proof (induction s)
  case Nil
  then show ?case by simp
next
  case (Cons c cs)
  from Cons.prems have np: "\<not> prefix sep (c # cs)" and ns: "\<not> sublist sep cs"
    by (auto simp: sublist_Cons_right)
  from ns Cons.IH have "split_at sep cs = [cs]" by simp
  with np show ?case by simp
qed

lemma split_at_char_append: "c \<notin> set a \<Longrightarrow> split_at [c] (a @ c # r) = a # split_at [c] r"
  by (induction a) auto

lemma split_at_char_none: "c \<notin> set a \<Longrightarrow> split_at [c] a = [a]"
  by (induction a) auto

lemma split_at_join_char:
  "args \<noteq> [] \<Longrightarrow> \<forall>a \<in> set args. c \<notin> set a \<Longrightarrow> split_at [c] (join args [c]) = args"
proof (induction args "[c]" rule: join.induct)
  case 1
  then show ?case by simp
next
  case (2 x)
  then show ?case by (simp add: split_at_char_none)
next
  case (3 x y ys)
  then show ?case by (simp add: split_at_char_append)
qed

lemma sublist_pair_append_other:
  "d \<noteq> x \<Longrightarrow> sublist [x, x] (a @ d # r) \<Longrightarrow> sublist [x, x] a \<or> sublist [x, x] r"
proof (induction a)
  case Nil
  then show ?case by (auto simp: sublist_Cons_right)
next
  case (Cons e a)
  then show ?case
    by (cases a) (auto simp: sublist_Cons_right)
qed

lemma no_pair_in_join:
  "d \<noteq> x \<Longrightarrow> \<forall>a \<in> set args. \<not> sublist [x, x] a \<Longrightarrow> \<not> sublist [x, x] (join args [d])"
proof (induction args "[d]" rule: join.induct)
  case 1
  then show ?case by simp
next
  case (2 y)
  then show ?case by simp
next
  case (3 y z zs)
  then show ?case using sublist_pair_append_other[of d x y "join (z # zs) [d]"] by auto
qed

section \<open>Internal item ids: decoding an encoded id\<close>

lemma read_create_nonempty:
  assumes "ty \<in> {''componentEvent'', ''componentProp''}" "args \<noteq> []"
    "\<forall>a \<in> set args. \<not> sublist ''::'' a \<and> CHR '','' \<notin> set a"
  shows "readInternalItemId (createInternalItemId ty args)
           = Inr (Some \<lparr>itemType = ty, itemArgs = args\<rparr>)"
proof -
  let ?j = "join args '',''"
  have nj: "\<not> sublist ''::'' ?j"
    using assms(3) no_pair_in_join[of "CHR '',''" "CHR '':''" args] by simp
  have sj: "split_at ''::'' ?j = [?j]" using nj by (rule split_at_no_sep)
  have sa: "split_at '','' ?j = args"
    using assms split_at_join_char[of args "CHR '',''"] by simp
  have st: "split_at ''::'' (''::'' @ ?j) = [[], ?j]" using sj by simp
  from assms(1) have "split_at ''::'' (createInternalItemId ty args) = [''__VLS_'', ty, ?j]"
    using st by (auto simp: createInternalItemId_def)
  then show ?thesis using sa
    by (simp add: readInternalItemId_def split_def startsWith_def createInternalItemId_def)
qed

text \<open>
  Claim C10, as stated, at the empty argument list: the encoded id of
  \<^verbatim>\<open>componentProp\<close> with no arguments decodes to the argument list that holds one
  empty string, not to the empty list.
\<close>

theorem C10_counterexample:
  "readInternalItemId (createInternalItemId ''componentProp'' [])
     = Inr (Some \<lparr>itemType = ''componentProp'', itemArgs = [[]]\<rparr>)
   \<and> readInternalItemId (createInternalItemId ''componentProp'' [])
     \<noteq> Inr (Some \<lparr>itemType = ''componentProp'', itemArgs = []\<rparr>)"
  by (simp add: readInternalItemId_def createInternalItemId_def startsWith_def split_def)

text \<open>
  Claim C10, amended: for each of the two types and every non-empty argument list
  whose strings contain neither \<^verbatim>\<open>::\<close> nor a comma, decoding the encoded id
  returns the type and the argument list; and a string that does not start with
  the sentinel decodes to nothing.
\<close>

theorem C10_roundtrip:
  "(ty \<in> {''componentEvent'', ''componentProp''} \<and> args \<noteq> []
      \<and> (\<forall>a \<in> set args. \<not> sublist ''::'' a \<and> CHR '','' \<notin> set a)
      \<longrightarrow> readInternalItemId (createInternalItemId ty args)
            = Inr (Some \<lparr>itemType = ty, itemArgs = args\<rparr>))
   \<and> (\<not> startsWith key ''__VLS_::'' \<longrightarrow> readInternalItemId key = Inr None)"
  using read_create_nonempty[of ty args] by (auto simp: readInternalItemId_def)

theorem C10_roundtrip_witness:
  "''componentEvent'' \<in> {''componentEvent'', ''componentProp''}
   \<and> [''Foo'', ''click''] \<noteq> []
   \<and> \<not> sublist ''::'' ''Foo'' \<and> CHR '','' \<notin> set ''Foo''
   \<and> \<not> sublist ''::'' ''click'' \<and> CHR '','' \<notin> set ''click''
   \<and> readInternalItemId (createInternalItemId ''componentEvent'' [''Foo'', ''click''])
       = Inr (Some \<lparr>itemType = ''componentEvent'', itemArgs = [''Foo'', ''click'']\<rparr>)
   \<and> \<not> startsWith ''plain text'' ''__VLS_::''
   \<and> readInternalItemId ''plain text'' = Inr None"
  using C10_roundtrip[of "''componentEvent''" "[''Foo'', ''click'']" "''plain text''"]
  by (simp add: sublist_Cons_right startsWith_def)

section \<open>The edit-collecting passes as comprehensions\<close>

lemma transformEdits_loop_eq:
  "transformEdits_loop sourceMap edits result = result @ concat (map (translateEdit sourceMap) edits)"
  by (induction edits arbitrary: result)
     (auto simp: transformTextEdit_def translateEdit_def split: option.splits)

lemma getHtmlFormattingEdits_loop_eq:
  "getHtmlFormattingEdits_loop formatters options sourceMaps result =
     result @ concat (map (\<lambda>sm. concat (map (translateEdit sm)
                 (html_formatter formatters (mappedDocument sm) options))) sourceMaps)"
  by (induction sourceMaps arbitrary: result) (auto simp: transformEdits_loop_eq)

lemma getPugFormattingEdits_loop_eq:
  "getPugFormattingEdits_loop formatters options sourceMaps result =
     result @ concat (map (\<lambda>sm. concat (map (translateEdit sm)
                 (pug_formatter formatters (mappedDocument sm) options))) sourceMaps)"
  by (induction sourceMaps arbitrary: result) (auto simp: transformEdits_loop_eq)

lemma getCssFormattingEdits_loop_eq:
  "getCssFormattingEdits_loop formatters options sourceMaps result =
     result @ concat (map (\<lambda>sm.
        if formatting (map_capabilities sm) then
          (case styleFormatter formatters (languageId (mappedDocument sm)) of
             None \<Rightarrow> []
           | Some formatter \<Rightarrow> concat (map (translateEdit sm) (formatter (mappedDocument sm) options)))
        else []) sourceMaps)"
  by (induction sourceMaps arbitrary: result)
     (auto simp: transformEdits_loop_eq styleFormatter_def Let_def)

lemma getCssFormattingEdits_loop_fold:
  "getCssFormattingEdits_loop formatters options sourceMaps result =
     foldl (\<lambda>result sm.
        if formatting (map_capabilities sm) then
          (case styleFormatter formatters (languageId (mappedDocument sm)) of
             None \<Rightarrow> result
           | Some formatter \<Rightarrow> transformEdits_loop sm (formatter (mappedDocument sm) options) result)
        else result) result sourceMaps"
  by (induction sourceMaps arbitrary: result) (auto simp: styleFormatter_def Let_def)

lemma tsRanges_loop_eq:
  "tsRanges_loop text vueRanges result =
     result @ map (\<lambda>r. \<lparr>edit_range = r, newText = text\<rparr>)
                (filter (\<lambda>r. formatting (capabilities (range_data r))) vueRanges)"
  by (induction vueRanges arbitrary: result) auto

lemma tsEdits_loop_eq:
  "tsEdits_loop sourceMap textEdits result =
     result @ concat (map (\<lambda>te. map (\<lambda>r. \<lparr>edit_range = r, newText = newText te\<rparr>)
                (filter (\<lambda>r. formatting (capabilities (range_data r)))
                   (getSourceRanges sourceMap (range_start (edit_range te)) (range_end (edit_range te)))))
              textEdits)"
  by (induction textEdits arbitrary: result) (auto simp: tsRanges_loop_eq)

lemma getTsFormattingEdits_loop_eq:
  "getTsFormattingEdits_loop services options sourceMaps result =
     result @ concat (map (\<lambda>sm.
        if formatting (map_capabilities sm) then
          concat (map (\<lambda>te. map (\<lambda>r. \<lparr>edit_range = r, newText = newText te\<rparr>)
                (filter (\<lambda>r. formatting (capabilities (range_data r)))
                   (getSourceRanges sm (range_start (edit_range te)) (range_end (edit_range te)))))
              (doFormatting services (mappedDocument sm) options))
        else []) sourceMaps)"
  by (induction sourceMaps arbitrary: result) (auto simp: tsEdits_loop_eq Let_def)

text \<open>
  Claim C3: every edit that the script pass emits carries the data of a mapping
  entry with the formatting flag set, and comes from a backend edit of a source
  map whose own formatting capability is set, through one of the source ranges of
  that backend edit, with the text of the backend edit.
\<close>

theorem C3_script_edits_formatting_enabled:
  "\<forall>e \<in> set (getTsFormattingEdits services sourceFile options).
     formatting (capabilities (range_data (edit_range e)))
     \<and> (\<exists>sm \<in> set (tsSourceMaps sourceFile). formatting (map_capabilities sm)
          \<and> (\<exists>te \<in> set (doFormatting services (mappedDocument sm) options).
                edit_range e \<in> set (getSourceRanges sm (range_start (edit_range te))
                                                    (range_end (edit_range te)))
                \<and> newText e = newText te))"
  unfolding getTsFormattingEdits_def getTsFormattingEdits_loop_eq
  by (auto split: if_splits)

theorem C3_script_edits_formatting_enabled_witness:
  "getTsFormattingEdits sample_services (sample_sourceFile sample_document) sample_options
     = [sample_vueEdit]
   \<and> formatting (capabilities (range_data (edit_range sample_vueEdit)))"
proof -
  have run: "getTsFormattingEdits sample_services (sample_sourceFile sample_document) sample_options
               = [sample_vueEdit]"
    by (simp add: getTsFormattingEdits_def tsSourceMaps_def sample_sourceFile_def
        sample_services_def sample_sourceMap_def sample_capabilities_def sample_backendEdit_def
        sample_vueEdit_def)
  then have "sample_vueEdit
      \<in> set (getTsFormattingEdits sample_services (sample_sourceFile sample_document) sample_options)"
    by simp
  with C3_script_edits_formatting_enabled
  have "formatting (capabilities (range_data (edit_range sample_vueEdit)))" by blast
  with run show ?thesis by simp
qed

text \<open>
  Claim C7: in the html, pug and style passes every backend edit is translated on
  its own (the result is the concatenation of the translations of the single
  edits, in order, over the source maps; the style pass takes the maps with the
  formatting capability and a style backend); an edit whose range has no source
  range contributes nothing, and a translated edit has the translated range and
  the \<^verbatim>\<open>newText\<close> of the backend edit.
\<close>

theorem C7_edits_translated_independently:
  "getHtmlFormattingEdits formatters sourceFile options =
     concat (map (\<lambda>sm. concat (map (translateEdit sm)
                          (html_formatter formatters (mappedDocument sm) options)))
               (getHtmlSourceMaps sourceFile))
   \<and> getPugFormattingEdits formatters sourceFile options =
     concat (map (\<lambda>sm. concat (map (translateEdit sm)
                          (pug_formatter formatters (mappedDocument sm) options)))
               (getPugSourceMaps sourceFile))
   \<and> getCssFormattingEdits formatters sourceFile options =
     concat (map (\<lambda>sm.
        if formatting (map_capabilities sm) then
          (case styleFormatter formatters (languageId (mappedDocument sm)) of
             None \<Rightarrow> []
           | Some formatter \<Rightarrow> concat (map (translateEdit sm) (formatter (mappedDocument sm) options)))
        else []) (getCssSourceMaps sourceFile))
   \<and> transformEdits_loop sm edits result = result @ concat (map (translateEdit sm) edits)
   \<and> translateEdit sm edit =
       (case getSourceRange sm (range_start (edit_range edit)) (range_end (edit_range edit)) of
          None \<Rightarrow> []
        | Some r \<Rightarrow> [\<lparr>edit_range = r, newText = newText edit\<rparr>])"
  by (simp add: getHtmlFormattingEdits_def getPugFormattingEdits_def getCssFormattingEdits_def
      getHtmlFormattingEdits_loop_eq getPugFormattingEdits_loop_eq getCssFormattingEdits_loop_eq
      transformEdits_loop_eq translateEdit_def)

text \<open>
  Claim C9: the style pass looks the backend up by the language identifier of the
  mapped document in a table with exactly the keys \<^verbatim>\<open>css\<close>, \<^verbatim>\<open>less\<close>, \<^verbatim>\<open>scss\<close> and
  \<^verbatim>\<open>postcss\<close>; a source map without the formatting capability or with another
  language identifier contributes no edit, and the pass always returns its list.
\<close>

theorem C9_style_backend_lookup:
  "getCssFormattingEdits formatters sourceFile options =
     foldl (\<lambda>result sm.
        if formatting (map_capabilities sm) then
          (case styleFormatter formatters (languageId (mappedDocument sm)) of
             None \<Rightarrow> result
           | Some formatter \<Rightarrow> transformEdits_loop sm (formatter (mappedDocument sm) options) result)
        else result) [] (getCssSourceMaps sourceFile)
   \<and> dom (styleFormatter formatters) = {''css'', ''less'', ''scss'', ''postcss''}
   \<and> styleFormatter formatters ''css'' = Some (css_formatter formatters)
   \<and> styleFormatter formatters ''less'' = Some (less_formatter formatters)
   \<and> styleFormatter formatters ''scss'' = Some (scss_formatter formatters)
   \<and> styleFormatter formatters ''postcss'' = Some (postcss_formatter formatters)
   \<and> (\<not> formatting (map_capabilities sm)
        \<or> languageId (mappedDocument sm) \<notin> {''css'', ''less'', ''scss'', ''postcss''}
      \<longrightarrow> getCssFormattingEdits_loop formatters options (sm # sms) result
            = getCssFormattingEdits_loop formatters options sms result)"
proof -
  have "dom (styleFormatter formatters) = {''css'', ''less'', ''scss'', ''postcss''}"
    unfolding styleFormatter_def dom_map_of_conv_image_fst by auto
  then show ?thesis
    by (simp add: getCssFormattingEdits_def getCssFormattingEdits_loop_fold)
       (simp add: styleFormatter_def)
qed

theorem C9_style_backend_lookup_witness:
  "languageId (mappedDocument (sample_sourceMap ''stylus'' True))
      \<notin> {''css'', ''less'', ''scss'', ''postcss''}
   \<and> getCssFormattingEdits_loop sample_formatters sample_options
        [sample_sourceMap ''stylus'' True, sample_sourceMap ''css'' False,
         sample_sourceMap ''css'' True] []
      = [sample_vueEdit]"
proof -
  have l: "languageId (mappedDocument (sample_sourceMap ''stylus'' True))
             \<notin> {''css'', ''less'', ''scss'', ''postcss''}"
    by (simp add: sample_sourceMap_def TextDocument_create_def)
  have f: "\<not> formatting (map_capabilities (sample_sourceMap ''css'' False))"
    by (simp add: sample_sourceMap_def sample_capabilities_def)
  have "getCssFormattingEdits_loop sample_formatters sample_options [sample_sourceMap ''css'' True] []
          = [sample_vueEdit]"
    by (simp add: sample_sourceMap_def sample_capabilities_def sample_formatters_def
        TextDocument_create_def transformTextEdit_def sample_backendEdit_def sample_vueEdit_def)
  with l f show ?thesis
    using C9_style_backend_lookup[of sample_formatters _ sample_options
            "sample_sourceMap ''stylus'' True"
            "[sample_sourceMap ''css'' False, sample_sourceMap ''css'' True]" "[]"]
          C9_style_backend_lookup[of sample_formatters _ sample_options
            "sample_sourceMap ''css'' False" "[sample_sourceMap ''css'' True]" "[]"]
    by simp
qed

section \<open>Text documents: line offsets, positions and offsets\<close>

lemma computeLineOffsets_bounds:
  "x \<in> set (computeLineOffsets i s) \<Longrightarrow> i < x \<and> x \<le> i + length s"
  by (induction i s arbitrary: x rule: computeLineOffsets.induct)
     (fastforce split: if_splits)+

lemma computeLineOffsets_sorted: "sorted_wrt (<) (computeLineOffsets i s)"
proof (induction i s rule: computeLineOffsets.induct)
  case (1 i)
  then show ?case by simp
next
  case (2 i c)
  then show ?case by simp
next
  case (3 i c d cs)
  then show ?case
    using computeLineOffsets_bounds[of _ "i + 2" cs] computeLineOffsets_bounds[of _ "i + 1" "d # cs"]
    by (auto simp: less_imp_le)
qed

lemma getLineOffsets_sorted: "sorted_wrt (<) (getLineOffsets d)"
  using computeLineOffsets_bounds[of _ 0 "text_content d"]
  by (auto simp: getLineOffsets_def computeLineOffsets_sorted)

lemma getLineOffsets_nth_mono:
  "i \<le> j \<Longrightarrow> j < length (getLineOffsets d) \<Longrightarrow> getLineOffsets d ! i \<le> getLineOffsets d ! j"
  using getLineOffsets_sorted[of d]
  by (metis le_eq_less_or_eq less_imp_le sorted_wrt_nth_less dual_order.strict_trans1)

lemma getLineOffsets_nth_le:
  "j < length (getLineOffsets d) \<Longrightarrow> getLineOffsets d ! j \<le> length (text_content d)"
  using computeLineOffsets_bounds[of "getLineOffsets d ! j" 0 "text_content d"]
  by (cases j) (auto simp: getLineOffsets_def)

lemma findLow_spec:
  assumes mono: "\<And>i j. i \<le> j \<Longrightarrow> j < length lo \<Longrightarrow> lo ! i \<le> lo ! j"
  shows "low \<le> high \<Longrightarrow> high \<le> length lo
    \<Longrightarrow> (\<forall>i < low. lo ! i \<le> off)
    \<Longrightarrow> (\<forall>i. high \<le> i \<and> i < length lo \<longrightarrow> off < lo ! i)
    \<Longrightarrow> low \<le> findLow lo off low high \<and> findLow lo off low high \<le> high
        \<and> (\<forall>i < findLow lo off low high. lo ! i \<le> off)
        \<and> (\<forall>i. findLow lo off low high \<le> i \<and> i < length lo \<longrightarrow> off < lo ! i)"
  using mono
proof (induction lo off low high rule: findLow.induct)
  case (1 lineOffsets offset low high)
  let ?mid = "(low + high) div 2"
  note mono' = "1.prems"(5)
  show ?case
  proof (cases "low < high")
    case False
    then have "findLow lineOffsets offset low high = low"
      by (simp add: findLow.simps[of lineOffsets offset low high])
    with False "1.prems" show ?thesis by auto
  next
    case lt: True
    then have mid: "low \<le> ?mid" "?mid < high" by auto
    with "1.prems" have midlen: "?mid < length lineOffsets" by simp
    show ?thesis
    proof (cases "lineOffsets ! ?mid > offset")
      case True
      have a: "\<forall>i. ?mid \<le> i \<and> i < length lineOffsets \<longrightarrow> offset < lineOffsets ! i"
      proof (intro allI impI)
        fix i assume h: "?mid \<le> i \<and> i < length lineOffsets"
        then have "lineOffsets ! ?mid \<le> lineOffsets ! i" using mono' by blast
        with True show "offset < lineOffsets ! i" by simp
      qed
      have eq: "findLow lineOffsets offset low high = findLow lineOffsets offset low ?mid"
        using lt True by (simp add: findLow.simps[of lineOffsets offset low high])
      have "low \<le> findLow lineOffsets offset low ?mid \<and> findLow lineOffsets offset low ?mid \<le> ?mid
        \<and> (\<forall>i < findLow lineOffsets offset low ?mid. lineOffsets ! i \<le> offset)
        \<and> (\<forall>i. findLow lineOffsets offset low ?mid \<le> i \<and> i < length lineOffsets \<longrightarrow> offset < lineOffsets ! i)"
        using "1.IH"(1)[OF lt True mid(1) _ "1.prems"(3) a mono'] midlen by simp
      with eq mid show ?thesis by simp
    next
      case False
      have b: "\<forall>i < ?mid + 1. lineOffsets ! i \<le> offset"
      proof (intro allI impI)
        fix i assume h: "i < ?mid + 1"
        then have "lineOffsets ! i \<le> lineOffsets ! ?mid" using mono'[of i ?mid] midlen by simp
        with False show "lineOffsets ! i \<le> offset" by simp
      qed
      have eq: "findLow lineOffsets offset low high = findLow lineOffsets offset (?mid + 1) high"
        using lt False by (simp add: findLow.simps[of lineOffsets offset low high])
      have "?mid + 1 \<le> findLow lineOffsets offset (?mid + 1) high \<and> findLow lineOffsets offset (?mid + 1) high \<le> high
        \<and> (\<forall>i < findLow lineOffsets offset (?mid + 1) high. lineOffsets ! i \<le> offset)
        \<and> (\<forall>i. findLow lineOffsets offset (?mid + 1) high \<le> i \<and> i < length lineOffsets \<longrightarrow> offset < lineOffsets ! i)"
        using "1.IH"(2)[OF lt False _ "1.prems"(2) b "1.prems"(4) mono'] mid by simp
      with eq mid show ?thesis by simp
    qed
  qed
qed

lemma findLow_lineOffsets:
  fixes d off
  defines "lo \<equiv> getLineOffsets d"
  defines "r \<equiv> findLow lo off 0 (length lo)"
  shows "0 < r \<and> r \<le> length lo \<and> lo ! (r - 1) \<le> off
         \<and> (r < length lo \<longrightarrow> off < lo ! r)"
proof -
  have mono: "\<And>i j. i \<le> j \<Longrightarrow> j < length lo \<Longrightarrow> lo ! i \<le> lo ! j"
    unfolding lo_def by (rule getLineOffsets_nth_mono)
  have s: "r \<le> length lo \<and> (\<forall>i < r. lo ! i \<le> off) \<and> (\<forall>i. r \<le> i \<and> i < length lo \<longrightarrow> off < lo ! i)"
    using findLow_spec[of lo 0 "length lo" off, OF mono] unfolding r_def by simp
  have z: "lo ! 0 = 0" "0 < length lo" by (simp_all add: lo_def getLineOffsets_def)
  have "0 < r"
  proof (rule ccontr)
    assume "\<not> 0 < r"
    then have "r = 0" by simp
    with s z have "off < lo ! 0" by blast
    with z show False by simp
  qed
  with s show ?thesis by auto
qed

lemma offsetAt_positionAt: "offsetAt d (positionAt d off) = min off (length (text_content d))"
proof -
  let ?o = "min off (length (text_content d))"
  let ?lo = "getLineOffsets d"
  let ?r = "findLow ?lo ?o 0 (length ?lo)"
  have f: "0 < ?r" "?r \<le> length ?lo" "?lo ! (?r - 1) \<le> ?o" "?r < length ?lo \<longrightarrow> ?o < ?lo ! ?r"
    using findLow_lineOffsets[of d ?o] by simp_all
  have ne: "length ?lo \<noteq> 0" by (simp add: getLineOffsets_def)
  have p: "positionAt d off = \<lparr>line = ?r - 1, character = ?o - ?lo ! (?r - 1)\<rparr>"
    using ne by (simp add: positionAt_def Let_def)
  have l: "?r - 1 < length ?lo" using f by simp
  have s: "?r - 1 + 1 = ?r" using f by simp
  show ?thesis
    unfolding p offsetAt_def Let_def using f l s by (auto simp: min_def max_def)
qed

lemma positionAt_0: "positionAt d 0 = \<lparr>line = 0, character = 0\<rparr>"
proof -
  let ?lo = "getLineOffsets d"
  let ?r = "findLow ?lo 0 0 (length ?lo)"
  have f: "0 < ?r" "?r \<le> length ?lo" "?lo ! (?r - 1) \<le> 0"
    using findLow_lineOffsets[of d 0] by simp_all
  have "?r - 1 = 0"
  proof (rule ccontr)
    assume "?r - 1 \<noteq> 0"
    then have "0 < ?r - 1" by simp
    moreover have "?r - 1 < length ?lo" using f by simp
    ultimately have "?lo ! 0 < ?lo ! (?r - 1)"
      using getLineOffsets_sorted[of d] sorted_wrt_nth_less by blast
    with f show False by simp
  qed
  moreover have "length ?lo \<noteq> 0" by (simp add: getLineOffsets_def)
  ultimately show ?thesis by (simp add: positionAt_def Let_def getLineOffsets_def)
qed

section \<open>Diagnostics of the template compiler\<close>

lemma onCompilerErrors_loop_eq:
  "onCompilerErrors_loop document sev errs templateErrors
     = templateErrors @ map (\<lambda>e. onCompilerError document e sev) errs"
  by (induction errs arbitrary: templateErrors) auto

lemma provideDiagnostics_loop_eq:
  "provideDiagnostics_loop document originalResult maps =
     (case notEmpty_filter maps of
        [] \<Rightarrow> None
      | sourceVirtualFile # _ \<Rightarrow>
          Some ((case originalResult of None \<Rightarrow> [] | Some ds \<Rightarrow> ds)
                @ templateErrors_of document sourceVirtualFile))"
  by (induction document originalResult maps rule: provideDiagnostics_loop.induct) auto

text \<open>
  Claim C8: the diagnostics provider returns nothing for a document that is not
  supported, that has no virtual file, or none of whose maps has a \<^verbatim>\<open>VueFile\<close> as
  source; otherwise it returns the diagnostics of the backend followed by one
  diagnostic for each error of the template of the first source file that is a
  \<^verbatim>\<open>VueFile\<close>, with severity 1 (Error), and one for each of its warnings, with
  severity 2 (Warning). The diagnostic of an error or warning without a location
  has the range from position (0, 0) to position (0, 0), the position of offset
  0, the given severity and the source \<^verbatim>\<open>vue\<close>.
\<close>

theorem C8_template_diagnostics:
  "provideDiagnostics ctx document =
     (if \<not> isSupportedDocument ctx document then None
      else case getMaps ctx document of
        None \<Rightarrow> None
      | Some maps \<Rightarrow>
          (case notEmpty_filter maps of
             [] \<Rightarrow> None
           | sourceVirtualFile # rest \<Rightarrow>
               Some ((case base_provideDiagnostics ctx document of None \<Rightarrow> [] | Some orig \<Rightarrow> orig)
                     @ (case sfc_template sourceVirtualFile of
                          None \<Rightarrow> []
                        | Some template \<Rightarrow>
                            map (\<lambda>e. onCompilerError document e 1) (errors template)
                            @ map (\<lambda>e. onCompilerError document e 2) (warnings template)))))
   \<and> (loc err = None \<longrightarrow>
        onCompilerError document err sev =
          \<lparr>diag_range = \<lparr>range_start = \<lparr>line = 0, character = 0\<rparr>,
                          range_end = \<lparr>line = 0, character = 0\<rparr>\<rparr>,
           severity = Some sev, code = Some (error_code err),
           source = Some ''vue'', message = error_message err\<rparr>
        \<and> range_start (diag_range (onCompilerError document err sev)) = positionAt document 0
        \<and> range_end (diag_range (onCompilerError document err sev)) = positionAt document 0)"
  by (auto simp: provideDiagnostics_def provideDiagnostics_loop_eq templateErrors_of_def
      onCompilerErrors_loop_eq onCompilerError_def positionAt_0 Let_def
      split: if_splits option.splits list.splits)

theorem C8_template_diagnostics_witness:
  "isSupportedDocument sample_context sample_templateDocument
   \<and> getMaps sample_context sample_templateDocument = Some [None, Some sample_vueFile]
   \<and> loc sample_error = None \<and> loc sample_warning = None
   \<and> provideDiagnostics sample_context sample_templateDocument =
       Some [sample_backendDiagnostic,
             \<lparr>diag_range = \<lparr>range_start = \<lparr>line = 0, character = 0\<rparr>,
                             range_end = \<lparr>line = 0, character = 0\<rparr>\<rparr>,
              severity = Some 1, code = Some 23,
              source = Some ''vue'', message = ''Element is missing end tag.''\<rparr>,
             \<lparr>diag_range = \<lparr>range_start = \<lparr>line = 0, character = 0\<rparr>,
                             range_end = \<lparr>line = 0, character = 0\<rparr>\<rparr>,
              severity = Some 2, code = Some 7,
              source = Some ''vue'', message = ''deprecated''\<rparr>]"
proof -
  have s: "isSupportedDocument sample_context sample_templateDocument"
    "getMaps sample_context sample_templateDocument = Some [None, Some sample_vueFile]"
    by (simp_all add: sample_context_def)
  have l: "loc sample_error = None" "loc sample_warning = None"
    by (simp_all add: sample_error_def sample_warning_def)
  have run: "provideDiagnostics sample_context sample_templateDocument =
      Some [sample_backendDiagnostic,
            onCompilerError sample_templateDocument sample_error 1,
            onCompilerError sample_templateDocument sample_warning 2]"
    using C8_template_diagnostics[of sample_context sample_templateDocument sample_error 1, THEN conjunct1] s
    by (simp add: sample_context_def sample_vueFile_def)
  from l have
    "onCompilerError sample_templateDocument sample_error 1 =
       \<lparr>diag_range = \<lparr>range_start = \<lparr>line = 0, character = 0\<rparr>,
                       range_end = \<lparr>line = 0, character = 0\<rparr>\<rparr>,
        severity = Some 1, code = Some (error_code sample_error),
        source = Some ''vue'', message = error_message sample_error\<rparr>"
    "onCompilerError sample_templateDocument sample_warning 2 =
       \<lparr>diag_range = \<lparr>range_start = \<lparr>line = 0, character = 0\<rparr>,
                       range_end = \<lparr>line = 0, character = 0\<rparr>\<rparr>,
        severity = Some 2, code = Some (error_code sample_warning),
        source = Some ''vue'', message = error_message sample_warning\<rparr>"
    using C8_template_diagnostics[of sample_context sample_templateDocument sample_error 1]
          C8_template_diagnostics[of sample_context sample_templateDocument sample_warning 2]
    by simp_all
  with run s l show ?thesis by (simp add: sample_error_def sample_warning_def)
qed

section \<open>The result of the formatter\<close>

text \<open>
  Claim C4: when the passes end with a document, \<^verbatim>\<open>register\<close> returns no edit if
  the text of that document equals the text of the input, and otherwise exactly
  one edit whose text is the text of that document and whose range goes from the
  position of offset 0 to the position of the length of the input, which are the
  offsets 0 and the length of the input; when a pass raises, \<^verbatim>\<open>register\<close> raises.
\<close>

theorem C4_whole_document_edit:
  "(formatPasses services formatters document options = Inr newDocument \<longrightarrow>
      register services formatters document options =
        Inr (if getText newDocument = getText document then None
             else Some [\<lparr>edit_range = \<lparr>range_start = positionAt document 0,
                                         range_end = positionAt document (length (getText document))\<rparr>,
                         newText = getText newDocument\<rparr>])
      \<and> offsetAt document (positionAt document 0) = 0
      \<and> offsetAt document (positionAt document (length (getText document)))
          = length (getText document))
   \<and> (formatPasses services formatters document options = Inl e \<longrightarrow>
        register services formatters document options = Inl e)"
  by (simp add: register_def and_then_def offsetAt_positionAt getText_def Let_def)

lemma sample_formatPasses:
  "formatPasses sample_services sample_formatters sample_document sample_options
     = Inr (TextDocument_create ''file:///Widget.vue'' ''vue'' 3 ''b'')"
  by code_simp

lemma sample_positionAt_1: "positionAt sample_document 1 = \<lparr>line = 0, character = 1\<rparr>"
  by code_simp

theorem C4_whole_document_edit_witness:
  "formatPasses sample_services sample_formatters sample_document sample_options
     = Inr (TextDocument_create ''file:///Widget.vue'' ''vue'' 3 ''b'')
   \<and> register sample_services sample_formatters sample_document sample_options
     = Inr (Some [\<lparr>edit_range = \<lparr>range_start = \<lparr>line = 0, character = 0\<rparr>,
                                  range_end = \<lparr>line = 0, character = 1\<rparr>\<rparr>,
                    newText = ''b''\<rparr>])"
  using C4_whole_document_edit[of sample_services sample_formatters sample_document sample_options
          "TextDocument_create ''file:///Widget.vue'' ''vue'' 3 ''b''"]
        sample_formatPasses sample_positionAt_1
  by (simp add: positionAt_0 getText_def sample_document_def TextDocument_create_def)

section \<open>The indentation pass\<close>

lemma dollar_not_whitespace: "\<not> isWhiteSpace CHR ''$''"
  by (simp add: isWhiteSpace_def)

lemma leadingWhitespace_no_dollar: "CHR ''$'' \<notin> set (leadingWhitespace s)"
  using dollar_not_whitespace set_takeWhileD[of "CHR ''$''" isWhiteSpace s]
  by (auto simp: leadingWhitespace_def)

lemma leading_whitespace:
  "substr s 0 (length s - length (trimStart s)) = leadingWhitespace s"
proof -
  have "length s - length (dropWhile isWhiteSpace s) = length (takeWhile isWhiteSpace s)"
    by (metis add_diff_cancel_right' length_append takeWhile_dropWhile_id)
  then show ?thesis
    by (simp add: substr_def trimStart_def leadingWhitespace_def takeWhile_eq_take[symmetric])
qed

lemma getSubstitution_literal:
  "CHR ''$'' \<notin> set rep \<Longrightarrow> getSubstitution matched preceding following rep = rep"
  by (induction matched preceding following rep rule: getSubstitution.induct) auto

lemma indexOf_prefix: "prefix pat s \<Longrightarrow> indexOf s pat = Some 0"
  by (cases s) auto

lemma indexOf_char: "indexOf s [c] = None \<longleftrightarrow> c \<notin> set s"
  by (induction s) auto

lemma replace_prefix:
  "prefix pat s \<Longrightarrow> CHR ''$'' \<notin> set rep \<Longrightarrow> replace s pat rep = rep @ drop (length pat) s"
  by (simp add: replace_def indexOf_prefix getSubstitution_literal)

lemma replace_empty: "replace b r [] = removeFirst r b"
  by (simp add: replace_def removeFirst_def Let_def split: option.splits)

lemma patchLine_eq:
  "CHR ''$'' \<notin> set b \<Longrightarrow> patchLine r b ln = repairLine r b ln"
  by (simp add: patchLine_def repairLine_def startsWith_def replace_prefix replace_empty)

lemma patchLines_loop_eq:
  "patchLines_loop removeIndent baseIndent i lines =
     take i lines @ map (patchLine removeIndent baseIndent) (drop i lines)"
proof (induction removeIndent baseIndent i lines rule: patchLines_loop.induct)
  case (1 removeIndent baseIndent i lines)
  show ?case
  proof (cases "i < length lines")
    case True
    let ?l = "lines[i := patchLine removeIndent baseIndent (lines ! i)]"
    have "patchLines_loop removeIndent baseIndent i lines
            = patchLines_loop removeIndent baseIndent (i + 1) ?l"
      using True by (simp add: patchLines_loop.simps[of removeIndent baseIndent i lines])
    also have "\<dots> = take (i + 1) ?l @ map (patchLine removeIndent baseIndent) (drop (i + 1) ?l)"
      using "1.IH"[OF True] .
    also have "take (i + 1) ?l = take i lines @ [patchLine removeIndent baseIndent (lines ! i)]"
      using True by (simp add: take_Suc_conv_app_nth)
    also have "drop (i + 1) ?l = drop (i + 1) lines" by simp
    finally show ?thesis using Cons_nth_drop_Suc[OF True, symmetric] by simp
  next
    case False
    then show ?thesis by (simp add: patchLines_loop.simps[of removeIndent baseIndent i lines])
  qed
qed

lemma split_at_nonempty: "split_at sep s \<noteq> []"
  by (induction sep s rule: split_at.induct) (auto split: list.splits)

lemma split_nonempty: "sep \<noteq> [] \<Longrightarrow> split s sep \<noteq> []"
  by (simp add: split_def split_at_nonempty)

lemma getRemoveIndent_eq:
  "getRemoveIndent (split text [CHR 0x0A]) = removalIndent text"
proof -
  have "split text [CHR 0x0A] \<noteq> []" by (simp add: split_nonempty)
  then have "split text [CHR 0x0A] ! (length (split text [CHR 0x0A]) - 1) = last (split text [CHR 0x0A])"
    by (simp add: last_conv_nth)
  then show ?thesis
    by (simp add: getRemoveIndent_def removalIndent_def Let_def leading_whitespace)
qed

lemma patchText_eq:
  assumes "CHR ''$'' \<notin> set b"
  shows "patchText b text = repairText b text"
proof -
  let ?ls = "split text [CHR 0x0A]"
  have ne: "?ls \<noteq> []" by (simp add: split_nonempty)
  then have "take 1 ?ls = [hd ?ls]" "drop 1 ?ls = tl ?ls"
    by (cases ?ls; simp)+
  moreover have "patchLine (removalIndent text) b = repairLine (removalIndent text) b"
    using assms by (intro ext) (simp add: patchLine_eq)
  ultimately show ?thesis
    by (simp add: patchText_def repairText_def Let_def patchLines_loop_eq getRemoveIndent_eq)
qed

lemma substring_commute: "substring s a b = substring s b a"
  by (simp add: substring_def max.commute min.commute)

lemma getBaseIndent_eq:
  "getBaseIndent document maped
     = leadingWhitespace (textBeforeOnLine document (start_offset (sourceRange maped)))"
  by (simp add: getBaseIndent_def textBeforeOnLine_def Let_def leading_whitespace
      getText_range_def substring_commute)

lemma patchInterpolationIndent_loop_eq:
  "patchInterpolationIndent_loop document entries indentTextEdits =
     indentTextEdits @
     map (\<lambda>maped. \<lparr>edit_range = spanRange document maped,
                     newText = repairText
                       (leadingWhitespace (textBeforeOnLine document (start_offset (sourceRange maped))))
                       (spanText document maped)\<rparr>)
       (filter (\<lambda>maped. formatting (capabilities (data maped))
                         \<and> CHR 0x0A \<in> set (spanText document maped)) entries)"
proof (induction entries arbitrary: indentTextEdits)
  case Nil
  then show ?case by simp
next
  case (Cons maped rest)
  have t: "getText_range document
            \<lparr>range_start = positionAt document (start_offset (sourceRange maped)),
             range_end = positionAt document (end_offset (sourceRange maped))\<rparr>
           = spanText document maped"
    by (simp add: spanText_def spanRange_def)
  show ?case
    by (simp add: Cons.IH Let_def t indexOf_char getBaseIndent_eq
        patchText_eq[OF leadingWhitespace_no_dollar] spanRange_def)
qed

lemma removeFirst_prefix: "prefix r b \<Longrightarrow> removeFirst r b = drop (length r) b"
  by (simp add: removeFirst_def indexOf_prefix)


lemma indexOf_None: "\<not> sublist pat s \<Longrightarrow> indexOf s pat = None"
  by (induction s) (auto simp: sublist_Cons_right)

text \<open>
  Claim C1, amended: the indentation pass yields one edit for every mapping entry
  of the template formatting script that has the formatting flag and whose span
  text contains a newline; the edit replaces the span by its repaired text. In
  the repaired text the first line is kept; an interior line that starts with the
  removal indent (the leading white space of the last line of the span) gets that
  prefix replaced by the base indent, and any other interior line is prefixed
  with the base indent from which the first occurrence of the removal indent is
  removed: the base indent without that prefix when it starts with the removal
  indent, the base indent itself when the removal indent does not occur in it.
  The base indent is the leading white space of the text between the start of the
  line of the span's start and the span's start. The span text
  \<^verbatim>\<open><div>\n a \n b \n</div>\<close> (without the blanks) with a base indent of two
  spaces is repaired to the same lines with two spaces before every interior line.
\<close>

theorem C1_indentation_repair:
  "patchInterpolationIndent sourceFile =
     (case getTemplateFormattingScript_sourceMap sourceFile of
        None \<Rightarrow> []
      | Some tsSourceMap \<Rightarrow>
          map (\<lambda>maped.
                 \<lparr>edit_range = spanRange (getTextDocument sourceFile) maped,
                  newText = repairText
                    (leadingWhitespace
                       (textBeforeOnLine (getTextDocument sourceFile) (start_offset (sourceRange maped))))
                    (spanText (getTextDocument sourceFile) maped)\<rparr>)
            (filter (\<lambda>maped. formatting (capabilities (data maped))
                              \<and> CHR 0x0A \<in> set (spanText (getTextDocument sourceFile) maped))
               (mappings tsSourceMap)))
   \<and> repairText b text =
       join (hd (split text [CHR 0x0A])
             # map (\<lambda>ln. if prefix (removalIndent text) ln
                        then b @ drop (length (removalIndent text)) ln
                        else removeFirst (removalIndent text) b @ ln)
                 (tl (split text [CHR 0x0A])))
         [CHR 0x0A]
   \<and> (prefix r b \<longrightarrow> removeFirst r b = drop (length r) b)
   \<and> (\<not> sublist r b \<longrightarrow> removeFirst r b = b)
   \<and> repairText ''  '' ''<div>\<newline>a\<newline>b\<newline></div>''
       = ''<div>\<newline>  a\<newline>  b\<newline>  </div>''"
proof -
  have ex: "repairText ''  '' ''<div>\<newline>a\<newline>b\<newline></div>''
       = ''<div>\<newline>  a\<newline>  b\<newline>  </div>''"
    by code_simp
  have rl: "repairLine (removalIndent text) b = (\<lambda>ln. if prefix (removalIndent text) ln
                        then b @ drop (length (removalIndent text)) ln
                        else removeFirst (removalIndent text) b @ ln)"
    by (intro ext) (simp add: repairLine_def)
  have ns: "\<not> sublist r b \<Longrightarrow> removeFirst r b = b"
    by (simp add: removeFirst_def indexOf_None)
  have rt: "repairText b text =
       join (hd (split text [CHR 0x0A])
             # map (\<lambda>ln. if prefix (removalIndent text) ln
                        then b @ drop (length (removalIndent text)) ln
                        else removeFirst (removalIndent text) b @ ln)
                 (tl (split text [CHR 0x0A])))
         [CHR 0x0A]"
    by (simp add: repairText_def Let_def rl)
  have main: "patchInterpolationIndent sourceFile =
     (case getTemplateFormattingScript_sourceMap sourceFile of
        None \<Rightarrow> []
      | Some tsSourceMap \<Rightarrow>
          map (\<lambda>maped.
                 \<lparr>edit_range = spanRange (getTextDocument sourceFile) maped,
                  newText = repairText
                    (leadingWhitespace
                       (textBeforeOnLine (getTextDocument sourceFile) (start_offset (sourceRange maped))))
                    (spanText (getTextDocument sourceFile) maped)\<rparr>)
            (filter (\<lambda>maped. formatting (capabilities (data maped))
                              \<and> CHR 0x0A \<in> set (spanText (getTextDocument sourceFile) maped))
               (mappings tsSourceMap)))"
    by (simp add: patchInterpolationIndent_def patchInterpolationIndent_loop_eq split: option.splits)
  show ?thesis
    using ex ns rt main removeFirst_prefix by blast
qed


text \<open>
  Claim C1, as stated, fails where the span starts inside the leading white space
  of its line: in the document \<open>sample_shallowText\<close> the line of the span's
  start has four leading blanks, and the claim's repair puts four blanks before
  the interior line, while the pass takes the two blanks before the span and puts
  two. It also fails where the removal indent occurs in the base indent without
  being its prefix: with the base indent TAB, blank, blank and the removal indent
  of two blanks the pass prefixes a shallower line with TAB alone.
\<close>

theorem C1_counterexample:
  "patchInterpolationIndent (sample_indentSourceFile sample_shallowText [sample_entry 2 7])
     = [\<lparr>edit_range = \<lparr>range_start = \<lparr>line = 0, character = 2\<rparr>,
                         range_end = \<lparr>line = 1, character = 1\<rparr>\<rparr>,
         newText = ''  a\<newline>  b''\<rparr>]
   \<and> claimedRepair (getTextDocument (sample_indentSourceFile sample_shallowText [sample_entry 2 7]))
        (sample_entry 2 7)
     = ''  a\<newline>    b''
   \<and> patchText [CHR 0x09, CHR 0x20, CHR 0x20] ''{\<newline>a\<newline>  }''
     = ''{\<newline>'' @ [CHR 0x09] @ ''a\<newline>'' @ [CHR 0x09] @ ''  }''
   \<and> claimedRepairText [CHR 0x09, CHR 0x20, CHR 0x20] ''{\<newline>a\<newline>  }''
     = ''{\<newline>'' @ [CHR 0x09] @ ''  a\<newline>'' @ [CHR 0x09] @ ''  }''"
  by code_simp

theorem C1_indentation_repair_witness:
  "prefix ''  '' ''    '' \<and> removeFirst ''  '' ''    '' = ''  ''
   \<and> \<not> sublist ''  '' [CHR 0x09] \<and> removeFirst ''  '' [CHR 0x09] = [CHR 0x09]
   \<and> patchInterpolationIndent (sample_indentSourceFile sample_divText [sample_entry 2 19])
     = [\<lparr>edit_range = \<lparr>range_start = \<lparr>line = 0, character = 2\<rparr>,
                         range_end = \<lparr>line = 3, character = 6\<rparr>\<rparr>,
         newText = ''<div>\<newline>  a\<newline>  b\<newline>  </div>''\<rparr>]"
proof -
  note eq = C1_indentation_repair[of "sample_indentSourceFile sample_divText [sample_entry 2 19]"
              "[]" "[]" "[]", THEN conjunct1]
  have run: "patchInterpolationIndent (sample_indentSourceFile sample_divText [sample_entry 2 19])
     = [\<lparr>edit_range = \<lparr>range_start = \<lparr>line = 0, character = 2\<rparr>,
                         range_end = \<lparr>line = 3, character = 6\<rparr>\<rparr>,
         newText = ''<div>\<newline>  a\<newline>  b\<newline>  </div>''\<rparr>]"
    unfolding eq by code_simp
  have p: "prefix ''  '' ''    ''" by simp
  have n: "\<not> sublist ''  '' [CHR 0x09]" by (simp add: sublist_Cons_right)
  from p n run show ?thesis
    using C1_indentation_repair[of _ "''    ''" _ "''  ''"]
          C1_indentation_repair[of _ "[CHR 0x09]" _ "''  ''"]
    by simp
qed

section \<open>Completion items after the markup completion\<close>

lemma sortTextOrLabel_doc [simp]:
  "sortTextOrLabel (item\<lparr>documentation := d\<rparr>) = sortTextOrLabel item"
  by (simp add: sortTextOrLabel_def split: option.splits)

lemma patchItem_documentation:
  assumes "readItemId item = Inr itemId" "hasSentinel item"
  shows "documentation (patchItem h names item itemId) = None"
proof -
  from assms(2) obtain key where k: "itemIdKey item = Some key" "startsWith key ''__VLS_::''"
    by (auto simp: hasSentinel_def split: option.splits)
  then have "key \<noteq> []" by (auto simp: startsWith_def)
  with k assms(1) have "readInternalItemId key = Inr itemId" by (simp add: readItemId_def)
  with k have "itemId \<noteq> None"
    by (auto simp: readInternalItemId_def Let_def split: if_splits)
  then show ?thesis
    by (simp add: patchItem_def Let_def)
qed

lemma patchItem_sortText:
  assumes "readItemId item = Inr itemId"
  shows "(case itemGroup h names item of
            Some g \<Rightarrow> sortText (patchItem h names item itemId) = Some (groupChar g # sortTextOrLabel item)
          | None \<Rightarrow> sortText (patchItem h names item itemId) = sortText item)"
  using assms
  by (cases itemId)
     (auto simp: itemGroup_def isComponentTag_def propOrEventOf_def patchItem_def Let_def
        isStructuralDirective_def split: list.splits)

lemma afterHtmlCompletion_items_nth:
  "afterHtmlCompletion_items h names items = Inr items' \<Longrightarrow>
     length items' = length items
     \<and> (\<forall>i < length items. \<exists>itemId. readItemId (items ! i) = Inr itemId
            \<and> items' ! i = patchItem h names (items ! i) itemId)"
proof (induction items arbitrary: items')
  case Nil
  then show ?case by simp
next
  case (Cons item items)
  from Cons.prems obtain itemId rest where
    r: "readItemId item = Inr itemId" "afterHtmlCompletion_items h names items = Inr rest"
       "items' = patchItem h names item itemId # rest"
    by (auto simp: and_then_def split: sum.splits)
  from Cons.IH[OF r(2)] have ih: "length rest = length items"
    "\<forall>i < length items. \<exists>itemId. readItemId (items ! i) = Inr itemId
            \<and> rest ! i = patchItem h names (items ! i) itemId" by simp_all
  show ?case
  proof (intro conjI allI impI)
    show "length items' = length (item # items)" using r ih by simp
  next
    fix i assume "i < length (item # items)"
    then show "\<exists>itemId. readItemId ((item # items) ! i) = Inr itemId
            \<and> items' ! i = patchItem h names ((item # items) ! i) itemId"
      using r ih by (cases i) auto
  qed
qed

lemma sortsBefore_groups:
  "groupRank g < groupRank g' \<Longrightarrow> sortsBefore (groupChar g # s) (groupChar g' # s')"
  by (cases g; cases g') simp_all

text \<open>
  Claim C6, amended: when the loop ends without an exception, it keeps the number
  of the items; every item that carried the sentinel in its documentation has no
  documentation afterwards; the sort text of an item of a group is the code unit
  of the group (0 for component tags and props or events of a component, 1 for
  generic items, 2 for the other directives, 3 for the structural directives)
  followed by its former sort text, or by its label when it had none, so that an
  item of a lower group sorts before every item of a higher group; a prop or
  event of \<^verbatim>\<open>*\<close> that is no component tag keeps its sort text and belongs to no
  group.
\<close>

theorem C6_completion_post_pass:
  "afterHtmlCompletion_items h names items = Inr items' \<longrightarrow>
     length items' = length items
     \<and> (\<forall>i < length items.
          (hasSentinel (items ! i) \<longrightarrow> documentation (items' ! i) = None)
          \<and> (case itemGroup h names (items ! i) of
               Some g \<Rightarrow> sortText (items' ! i) = Some (groupChar g # sortTextOrLabel (items ! i))
             | None \<Rightarrow> sortText (items' ! i) = sortText (items ! i))
          \<and> (\<forall>j < length items. \<forall>g g'.
                itemGroup h names (items ! i) = Some g \<and> itemGroup h names (items ! j) = Some g'
                \<and> groupRank g < groupRank g'
                \<longrightarrow> sortsBefore (sortTextOrLabel (items' ! i)) (sortTextOrLabel (items' ! j))))"
proof (intro impI)
  assume run: "afterHtmlCompletion_items h names items = Inr items'"
  note nth = afterHtmlCompletion_items_nth[OF run]
  have one: "\<And>i. i < length items \<Longrightarrow>
     (hasSentinel (items ! i) \<longrightarrow> documentation (items' ! i) = None)
     \<and> (case itemGroup h names (items ! i) of
               Some g \<Rightarrow> sortText (items' ! i) = Some (groupChar g # sortTextOrLabel (items ! i))
             | None \<Rightarrow> sortText (items' ! i) = sortText (items ! i))"
  proof -
    fix i assume "i < length items"
    with nth obtain itemId where
      r: "readItemId (items ! i) = Inr itemId" "items' ! i = patchItem h names (items ! i) itemId"
      by blast
    show "(hasSentinel (items ! i) \<longrightarrow> documentation (items' ! i) = None)
     \<and> (case itemGroup h names (items ! i) of
               Some g \<Rightarrow> sortText (items' ! i) = Some (groupChar g # sortTextOrLabel (items ! i))
             | None \<Rightarrow> sortText (items' ! i) = sortText (items ! i))"
      using patchItem_documentation[OF r(1), of h names] patchItem_sortText[OF r(1), of h names]
      unfolding r(2) by blast
  qed
  have key: "\<And>i g. i < length items \<Longrightarrow> itemGroup h names (items ! i) = Some g
               \<Longrightarrow> sortTextOrLabel (items' ! i) = groupChar g # sortTextOrLabel (items ! i)"
    using one by (fastforce simp: sortTextOrLabel_def)
  have sep: "\<And>i j g g'. i < length items \<Longrightarrow> j < length items
      \<Longrightarrow> itemGroup h names (items ! i) = Some g \<Longrightarrow> itemGroup h names (items ! j) = Some g'
      \<Longrightarrow> groupRank g < groupRank g'
      \<Longrightarrow> sortsBefore (sortTextOrLabel (items' ! i)) (sortTextOrLabel (items' ! j))"
    using key sortsBefore_groups by simp
  show "length items' = length items
     \<and> (\<forall>i < length items.
          (hasSentinel (items ! i) \<longrightarrow> documentation (items' ! i) = None)
          \<and> (case itemGroup h names (items ! i) of
               Some g \<Rightarrow> sortText (items' ! i) = Some (groupChar g # sortTextOrLabel (items ! i))
             | None \<Rightarrow> sortText (items' ! i) = sortText (items ! i))
          \<and> (\<forall>j < length items. \<forall>g g'.
                itemGroup h names (items ! i) = Some g \<and> itemGroup h names (items ! j) = Some g'
                \<and> groupRank g < groupRank g'
                \<longrightarrow> sortsBefore (sortTextOrLabel (items' ! i)) (sortTextOrLabel (items' ! j))))"
    using nth one sep by blast
qed

theorem C6_completion_post_pass_witness:
  "afterHtmlCompletion_items (\<lambda>s. s) [''my-button''] sample_items = Inr sample_patchedItems
   \<and> hasSentinel (sample_items ! 1)
   \<and> documentation (sample_patchedItems ! 1) = None
   \<and> itemGroup (\<lambda>s. s) [''my-button''] (sample_items ! 0) = Some ComponentGroup
   \<and> itemGroup (\<lambda>s. s) [''my-button''] (sample_items ! 5) = Some StructuralGroup
   \<and> sortsBefore (sortTextOrLabel (sample_patchedItems ! 0)) (sortTextOrLabel (sample_patchedItems ! 5))"
proof -
  have run: "afterHtmlCompletion_items (\<lambda>s. s) [''my-button''] sample_items = Inr sample_patchedItems"
    by code_simp
  have s: "hasSentinel (sample_items ! 1)" by code_simp
  have g0: "itemGroup (\<lambda>s. s) [''my-button''] (sample_items ! 0) = Some ComponentGroup"
    by code_simp
  have g5: "itemGroup (\<lambda>s. s) [''my-button''] (sample_items ! 5) = Some StructuralGroup"
    by code_simp
  have len: "0 < length sample_items" "1 < length sample_items" "5 < length sample_items"
    by (simp_all add: sample_items_def)
  have rk: "groupRank ComponentGroup < groupRank StructuralGroup" by simp
  from C6_completion_post_pass[of "\<lambda>s. s" "[''my-button'']" sample_items sample_patchedItems] run
  have all: "\<forall>i < length sample_items.
          (hasSentinel (sample_items ! i) \<longrightarrow> documentation (sample_patchedItems ! i) = None)
          \<and> (\<forall>j < length sample_items. \<forall>g g'.
                itemGroup (\<lambda>s. s) [''my-button''] (sample_items ! i) = Some g
                \<and> itemGroup (\<lambda>s. s) [''my-button''] (sample_items ! j) = Some g'
                \<and> groupRank g < groupRank g'
                \<longrightarrow> sortsBefore (sortTextOrLabel (sample_patchedItems ! i))
                                (sortTextOrLabel (sample_patchedItems ! j)))"
    by blast
  from all s len have d: "documentation (sample_patchedItems ! 1) = None" by blast
  from all g0 g5 rk len
  have b: "sortsBefore (sortTextOrLabel (sample_patchedItems ! 0)) (sortTextOrLabel (sample_patchedItems ! 5))"
    by blast
  from run s d g0 g5 b show ?thesis by blast
qed

text \<open>
  Claim C6, as stated, on a global prop \<^verbatim>\<open>class\<close> (a generic, non-directive item)
  and the structural directive \<^verbatim>\<open>v-if\<close>: the prop keeps its sort key, the label
  \<^verbatim>\<open>class\<close>, and the directive, with the sort key that starts with the code unit
  3, sorts before it, not last.
\<close>

theorem C6_counterexample:
  "afterHtmlCompletion_items (\<lambda>s. s) [''my-button''] [sample_globalProp, sample_structural]
     = Inr [\<lparr>label = ''class'', kind = Some 12, sortText = None, documentation = None\<rparr>,
            \<lparr>label = ''v-if'', kind = Some 14, sortText = Some (CHR 0x03 # ''v-if''),
             documentation = None\<rparr>]
   \<and> claimedGroup (\<lambda>s. s) [''my-button''] sample_globalProp = GenericGroup
   \<and> claimedGroup (\<lambda>s. s) [''my-button''] sample_structural = StructuralGroup
   \<and> sortsBefore
        (sortTextOrLabel \<lparr>label = ''v-if'', kind = Some 14, sortText = Some (CHR 0x03 # ''v-if''),
                          documentation = None\<rparr>)
        (sortTextOrLabel \<lparr>label = ''class'', kind = Some 12, sortText = None, documentation = None\<rparr>)
   \<and> \<not> sortsBefore
        (sortTextOrLabel \<lparr>label = ''class'', kind = Some 12, sortText = None, documentation = None\<rparr>)
        (sortTextOrLabel \<lparr>label = ''v-if'', kind = Some 14, sortText = Some (CHR 0x03 # ''v-if''),
                          documentation = None\<rparr>)"
  by code_simp

section \<open>Semantic tokens of component tags\<close>

lemma scan_token_eq:
  "scan_token document components legend rs t result =
     (if rs \<le> tokenOffset t \<and> isTagToken t \<and> tokenText t \<in> set components
      then result @ [componentToken document legend t] else result)"
  by (simp add: scan_token_def isTagToken_def componentToken_def Let_def)

lemma scan_loop_mono:
  "set result \<subseteq> set (snd (scan_loop document components legend rs re scanner result))"
proof (induction scanner arbitrary: result)
  case Nil
  then show ?case by simp
next
  case (Cons u scanner)
  have "set result \<subseteq> set (scan_token document components legend rs u result)"
    by (auto simp: scan_token_eq)
  with Cons.IH[of "scan_token document components legend rs u result"] show ?case by auto
qed

lemma scan_loop_adds:
  assumes "sorted (map tokenOffset scanner)" "t \<in> set scanner" "isTagToken t"
    "rs \<le> tokenOffset t" "tokenOffset t \<le> re" "tokenText t \<in> set components"
  shows "componentToken document legend t
           \<in> set (snd (scan_loop document components legend rs re scanner result))"
  using assms
proof (induction scanner arbitrary: result)
  case Nil
  then show ?case by simp
next
  case (Cons u scanner)
  from Cons.prems(1,2,5) have le: "tokenOffset u \<le> re" by auto
  show ?case
  proof (cases "t = u")
    case True
    let ?r = "scan_token document components legend rs u result"
    have "componentToken document legend t \<in> set ?r"
      using True Cons.prems by (simp add: scan_token_eq)
    then show ?thesis using le scan_loop_mono[of ?r document components legend rs re scanner]
      by auto
  next
    case False
    with Cons.prems have "t \<in> set scanner" "sorted (map tokenOffset scanner)" by auto
    from Cons.IH[OF this(2) this(1) Cons.prems(3-6)] le show ?thesis by simp
  qed
qed

lemma scan_loop_origin:
  "tok \<in> set (snd (scan_loop document components legend rs re scanner result)) \<Longrightarrow>
     tok \<in> set result
     \<or> (\<exists>t \<in> set scanner. isTagToken t \<and> tokenText t \<in> set components
            \<and> rs \<le> tokenOffset t \<and> tokenOffset t \<le> re
            \<and> tok = componentToken document legend t)"
proof (induction scanner arbitrary: result)
  case Nil
  then show ?case by simp
next
  case (Cons u scanner)
  show ?case
  proof (cases "tokenOffset u > re")
    case True
    with Cons.prems show ?thesis by simp
  next
    case False
    let ?r = "scan_token document components legend rs u result"
    from False Cons.prems have "tok \<in> set (snd (scan_loop document components legend rs re scanner ?r))"
      by simp
    from Cons.IH[OF this] have "tok \<in> set ?r \<or> (\<exists>t \<in> set scanner. isTagToken t \<and> tokenText t \<in> set components
            \<and> rs \<le> tokenOffset t \<and> tokenOffset t \<le> re
            \<and> tok = componentToken document legend t)" .
    moreover have "tok \<in> set ?r \<Longrightarrow> tok \<in> set result \<or> (isTagToken u \<and> tokenText u \<in> set components
            \<and> rs \<le> tokenOffset u \<and> tokenOffset u \<le> re \<and> tok = componentToken document legend u)"
      using False by (auto simp: scan_token_eq split: if_splits)
    ultimately show ?thesis by auto
  qed
qed

lemma scan_loop_rest:
  "set (fst (scan_loop document components legend rs re scanner result)) \<subseteq> set scanner"
  by (induction scanner arbitrary: result) auto

lemma maps_loop_mono:
  "set result \<subseteq> set (semanticTokens_maps_loop ctx document r legend maps scanner result)"
proof (induction ctx document r legend maps scanner result rule: semanticTokens_maps_loop.induct)
  case (1 ctx document r legend scanner result)
  then show ?case by simp
next
  case (2 ctx document r legend maps scanner result)
  then show ?case by simp
next
  case (3 ctx document r legend sourceFile maps scanner result)
  let ?c = "getComponentNames ctx sourceFile @ map (hyphenateTag ctx) (getComponentNames ctx sourceFile)"
  obtain sc res where s: "scan_loop document ?c legend (offsetAt document (range_start r))
       (offsetAt document (range_end r)) scanner result = (sc, res)" by fastforce
  have "set result \<subseteq> set res"
    using scan_loop_mono[of result document ?c legend "offsetAt document (range_start r)"
        "offsetAt document (range_end r)" scanner] s by simp
  moreover have "set res \<subseteq> set (semanticTokens_maps_loop ctx document r legend maps sc res)"
    using "3.IH"[OF refl refl refl refl s[symmetric]] .
  ultimately show ?case using s by (simp add: Let_def)
qed

lemma maps_loop_first:
  "notEmpty_filter maps = sourceFile # others \<Longrightarrow>
     set (snd (scan_loop document (componentsOf ctx sourceFile) legend
                 (offsetAt document (range_start r)) (offsetAt document (range_end r)) scanner result))
       \<subseteq> set (semanticTokens_maps_loop ctx document r legend maps scanner result)"
proof (induction maps)
  case Nil
  then show ?case by simp
next
  case (Cons m maps)
  show ?case
  proof (cases m)
    case None
    with Cons show ?thesis by simp
  next
    case (Some vf)
    with Cons.prems have vf: "vf = sourceFile" by simp
    obtain sc res where s: "scan_loop document (componentsOf ctx sourceFile) legend
       (offsetAt document (range_start r)) (offsetAt document (range_end r)) scanner result = (sc, res)"
      by fastforce
    then show ?thesis
      using maps_loop_mono[of res ctx document r legend maps sc] Some vf
      by (simp add: Let_def componentsOf_def)
  qed
qed

lemma maps_loop_origin:
  "tok \<in> set (semanticTokens_maps_loop ctx document r legend maps scanner result) \<Longrightarrow>
     tok \<in> set result
     \<or> (\<exists>t \<in> set scanner. \<exists>sourceFile \<in> set (notEmpty_filter maps).
            isTagToken t \<and> tokenText t \<in> set (componentsOf ctx sourceFile)
          \<and> offsetAt document (range_start r) \<le> tokenOffset t
          \<and> tokenOffset t \<le> offsetAt document (range_end r)
          \<and> tok = componentToken document legend t)"
proof (induction ctx document r legend maps scanner result rule: semanticTokens_maps_loop.induct)
  case (1 ctx document r legend scanner result)
  then show ?case by simp
next
  case (2 ctx document r legend maps scanner result)
  then show ?case by simp
next
  case (3 ctx document r legend sourceFile maps scanner result)
  let ?c = "getComponentNames ctx sourceFile @ map (hyphenateTag ctx) (getComponentNames ctx sourceFile)"
  let ?rs = "offsetAt document (range_start r)"
  let ?re = "offsetAt document (range_end r)"
  obtain sc res where s: "scan_loop document ?c legend ?rs ?re scanner result = (sc, res)"
    by fastforce
  from "3.prems" s have "tok \<in> set (semanticTokens_maps_loop ctx document r legend maps sc res)"
    by (simp add: Let_def)
  from "3.IH"[OF refl refl refl refl s[symmetric] this]
  have A: "tok \<in> set res \<or> (\<exists>t \<in> set sc. \<exists>sourceFile \<in> set (notEmpty_filter maps).
            isTagToken t \<and> tokenText t \<in> set (componentsOf ctx sourceFile)
          \<and> ?rs \<le> tokenOffset t \<and> tokenOffset t \<le> ?re
          \<and> tok = componentToken document legend t)" .
  have B: "set sc \<subseteq> set scanner"
    using scan_loop_rest[of document ?c legend ?rs ?re scanner result] s by simp
  have c: "?c = componentsOf ctx sourceFile" by (simp add: componentsOf_def)
  have C: "tok \<in> set res \<Longrightarrow> tok \<in> set result
     \<or> (\<exists>t \<in> set scanner. isTagToken t \<and> tokenText t \<in> set (componentsOf ctx sourceFile)
            \<and> ?rs \<le> tokenOffset t \<and> tokenOffset t \<le> ?re
            \<and> tok = componentToken document legend t)"
    using scan_loop_origin[of tok document ?c legend ?rs ?re scanner result] s
    unfolding c by simp
  have S: "set (notEmpty_filter (Some sourceFile # maps))
             = insert sourceFile (set (notEmpty_filter maps))" by simp
  show ?case unfolding S using A B C by blast
qed

lemma array_indexOf_absent: "array_indexOf xs x = - 1 \<longleftrightarrow> x \<notin> set xs"
proof (induction xs)
  case Nil
  then show ?case by simp
next
  case (Cons y ys)
  have "array_indexOf ys x \<ge> - 1" for ys :: "'a list"
    by (induction ys) (auto simp: Let_def)
  from this[of ys] Cons show ?case by (auto simp: Let_def)
qed

lemma componentTokenType_eq:
  "componentTokenType legend =
     (if ''component'' \<in> set (tokenTypes legend)
      then array_indexOf (tokenTypes legend) ''component''
      else array_indexOf (tokenTypes legend) ''class'')"
  using array_indexOf_absent[of "tokenTypes legend" "''component''"]
  by (simp add: componentTokenType_def Let_def)

text \<open>
  When the document is supported and has a scanner and a virtual file, the
  provider returns tokens. With a scanner that yields its tokens in the order of
  their offsets, for every start-tag or end-tag token with an offset inside the
  requested range whose whole text is a component name of the first source file
  that is a \<^verbatim>\<open>VueFile\<close>, or the hyphenation of one, the result holds a token at the
  position of the tag, with its length and the type \<^verbatim>\<open>component\<close> of the legend
  (the type \<^verbatim>\<open>class\<close> when the legend has no \<^verbatim>\<open>component\<close>); and every token of the
  result comes from the base service or is such a token for a tag whose whole
  text is among the component names and hyphenations of a source file.
\<close>

lemma semanticTokens_of_component_tags:
  assumes "isSupportedDocument ctx document" "getScanner ctx document = Some scanner"
    "getMaps ctx document = Some maps"
  shows "\<exists>tokens. provideDocumentSemanticTokens ctx document r legend = Some tokens
      \<and> (\<forall>sourceFile others t.
          notEmpty_filter maps = sourceFile # others \<and> sorted (map tokenOffset scanner)
          \<and> t \<in> set scanner \<and> isTagToken t
          \<and> offsetAt document (range_start r) \<le> tokenOffset t
          \<and> tokenOffset t \<le> offsetAt document (range_end r)
          \<and> tokenText t \<in> set (componentsOf ctx sourceFile)
          \<longrightarrow> componentToken document legend t \<in> set tokens)
      \<and> (\<forall>tok \<in> set tokens.
            tok \<in> set (case base_provideDocumentSemanticTokens ctx document r legend of
                         None \<Rightarrow> [] | Some ts \<Rightarrow> ts)
            \<or> (\<exists>t \<in> set scanner. \<exists>sourceFile \<in> set (notEmpty_filter maps).
                   isTagToken t \<and> tokenText t \<in> set (componentsOf ctx sourceFile)
                 \<and> offsetAt document (range_start r) \<le> tokenOffset t
                 \<and> tokenOffset t \<le> offsetAt document (range_end r)
                 \<and> tok = componentToken document legend t))"
proof -
  let ?base = "case base_provideDocumentSemanticTokens ctx document r legend of
                         None \<Rightarrow> [] | Some ts \<Rightarrow> ts"
  let ?tokens = "semanticTokens_maps_loop ctx document r legend maps scanner ?base"
  have run: "provideDocumentSemanticTokens ctx document r legend = Some ?tokens"
    using assms by (simp add: provideDocumentSemanticTokens_def Let_def)
  have pos: "\<forall>sourceFile others t.
          notEmpty_filter maps = sourceFile # others \<and> sorted (map tokenOffset scanner)
          \<and> t \<in> set scanner \<and> isTagToken t
          \<and> offsetAt document (range_start r) \<le> tokenOffset t
          \<and> tokenOffset t \<le> offsetAt document (range_end r)
          \<and> tokenText t \<in> set (componentsOf ctx sourceFile)
          \<longrightarrow> componentToken document legend t \<in> set ?tokens"
  proof (intro allI impI, elim conjE)
    fix sourceFile others t
    assume h: "notEmpty_filter maps = sourceFile # others" "sorted (map tokenOffset scanner)"
      "t \<in> set scanner" "isTagToken t" "offsetAt document (range_start r) \<le> tokenOffset t"
      "tokenOffset t \<le> offsetAt document (range_end r)"
      "tokenText t \<in> set (componentsOf ctx sourceFile)"
    from scan_loop_adds[OF h(2) h(3) h(4) h(5) h(6) h(7), of document legend ?base]
      maps_loop_first[OF h(1), of document ctx legend r scanner ?base]
    show "componentToken document legend t \<in> set ?tokens" by blast
  qed
  have org: "\<forall>tok \<in> set ?tokens.
          tok \<in> set ?base
          \<or> (\<exists>t \<in> set scanner. \<exists>sourceFile \<in> set (notEmpty_filter maps).
                 isTagToken t \<and> tokenText t \<in> set (componentsOf ctx sourceFile)
               \<and> offsetAt document (range_start r) \<le> tokenOffset t
               \<and> tokenOffset t \<le> offsetAt document (range_end r)
               \<and> tok = componentToken document legend t)"
    using maps_loop_origin by blast
  from run pos org show ?thesis by blast
qed

text \<open>
  Claim C5 on the template \<^verbatim>\<open><Foo.Bar/><Foo/>\<close> with the component name \<^verbatim>\<open>Foo\<close>
  and the whole document as the requested range: the namespaced tag
  \<^verbatim>\<open>Foo.Bar\<close> at offset 1 lies inside the range and its segment before the first
  dot is the component name, so that the claim has the token (0, 1, 7, 1, 0)
  added for it; the provider returns only the token of the tag \<^verbatim>\<open>Foo\<close> at offset
  11.
\<close>

theorem C5_namespaced_tag_gets_no_token:
  "provideDocumentSemanticTokens sample_context sample_templateDocument sample_range sample_legend
     = Some [(0, 11, 3, 1, 0)]
   \<and> sample_scanner ! 1
     = \<lparr>tokenType = StartTag, tokenOffset = 1, tokenLength = 7, tokenText = ''Foo.Bar''\<rparr>
   \<and> getComponentNames sample_context sample_vueFile = [''Foo'']
   \<and> takeWhile (\<lambda>c. c \<noteq> CHR ''.'') (tokenText (sample_scanner ! 1)) = ''Foo''
   \<and> claimedComponentMatch sample_context sample_vueFile (tokenText (sample_scanner ! 1))
   \<and> offsetAt sample_templateDocument (range_start sample_range) = 0
   \<and> offsetAt sample_templateDocument (range_end sample_range) = 16
   \<and> componentToken sample_templateDocument sample_legend (sample_scanner ! 1) = (0, 1, 7, 1, 0)
   \<and> (0, 1, 7, 1, 0) \<notin> set [(0, 11, 3, 1, 0) :: SemanticToken]"
  by code_simp

section \<open>Custom blocks: the names listed and their resolution\<close>

lemma in_splits:
  "(\<exists>n \<in> set (rev [k..<Suc (length s)]). P (take n s) (drop n s))
     \<longleftrightarrow> (\<exists>g r. s = g @ r \<and> k \<le> length g \<and> P g r)"
proof
  assume "\<exists>n \<in> set (rev [k..<Suc (length s)]). P (take n s) (drop n s)"
  then obtain n where n: "k \<le> n" "n \<le> length s" "P (take n s) (drop n s)" by auto
  then have "s = take n s @ drop n s \<and> k \<le> length (take n s) \<and> P (take n s) (drop n s)" by simp
  then show "\<exists>g r. s = g @ r \<and> k \<le> length g \<and> P g r" by blast
next
  assume "\<exists>g r. s = g @ r \<and> k \<le> length g \<and> P g r"
  then obtain g r where g: "s = g @ r" "k \<le> length g" "P g r" by blast
  then have "length g \<in> set (rev [k..<Suc (length s)])" "P (take (length g) s) (drop (length g) s)"
    by auto
  then show "\<exists>n \<in> set (rev [k..<Suc (length s)]). P (take n s) (drop n s)" by blast
qed

lemma reg_digits_dot_rest_iff:
  "x \<in> set (reg_digits_dot_rest g1 g2 r) \<longleftrightarrow>
     (\<exists>g3 g4. x = (g1, g2, g3, g4) \<and> r = g3 @ ''.'' @ g4 \<and> g3 \<noteq> []
        \<and> (\<forall>c \<in> set g3. isDigit c) \<and> g4 \<noteq> [] \<and> CHR ''.'' \<notin> set g4)"
proof -
  let ?P = "\<lambda>g3 r'. (\<forall>c \<in> set g3. isDigit c) \<and> prefix ''.'' r'
              \<and> drop 1 r' \<noteq> [] \<and> CHR ''.'' \<notin> set (drop 1 r') \<and> x = (g1, g2, g3, drop 1 r')"
  have "x \<in> set (reg_digits_dot_rest g1 g2 r)
          \<longleftrightarrow> (\<exists>n \<in> set (rev [1..<Suc (length r)]). ?P (take n r) (drop n r))"
    unfolding reg_digits_dot_rest_def by (auto simp: Let_def split: if_splits)
  also have "\<dots> \<longleftrightarrow> (\<exists>g r'. r = g @ r' \<and> 1 \<le> length g \<and> ?P g r')"
    by (rule in_splits)
  also have "\<dots> \<longleftrightarrow> (\<exists>g3 g4. x = (g1, g2, g3, g4) \<and> r = g3 @ ''.'' @ g4 \<and> g3 \<noteq> []
        \<and> (\<forall>c \<in> set g3. isDigit c) \<and> g4 \<noteq> [] \<and> CHR ''.'' \<notin> set g4)"
  proof
    assume "\<exists>g r'. r = g @ r' \<and> 1 \<le> length g \<and> ?P g r'"
    then obtain g r' where h: "r = g @ r'" "1 \<le> length g" "?P g r'" by blast
    then obtain g4 where "r' = ''.'' @ g4" by (auto simp: prefix_def)
    with h show "\<exists>g3 g4. x = (g1, g2, g3, g4) \<and> r = g3 @ ''.'' @ g4 \<and> g3 \<noteq> []
        \<and> (\<forall>c \<in> set g3. isDigit c) \<and> g4 \<noteq> [] \<and> CHR ''.'' \<notin> set g4"
      by (intro exI[of _ g] exI[of _ g4]) auto
  next
    assume "\<exists>g3 g4. x = (g1, g2, g3, g4) \<and> r = g3 @ ''.'' @ g4 \<and> g3 \<noteq> []
        \<and> (\<forall>c \<in> set g3. isDigit c) \<and> g4 \<noteq> [] \<and> CHR ''.'' \<notin> set g4"
    then obtain g3 g4 where h: "x = (g1, g2, g3, g4)" "r = g3 @ ''.'' @ g4" "g3 \<noteq> []"
        "\<forall>c \<in> set g3. isDigit c" "g4 \<noteq> []" "CHR ''.'' \<notin> set g4" by blast
    then show "\<exists>g r'. r = g @ r' \<and> 1 \<le> length g \<and> ?P g r'"
      by (intro exI[of _ g3] exI[of _ "''.'' @ g4"]) (auto simp: Suc_le_eq)
  qed
  finally show ?thesis .
qed

lemma reg_type_underscore_iff:
  "x \<in> set (reg_type_underscore g1 r) \<longleftrightarrow>
     (\<exists>g2 g3 g4. x = (g1, g2, g3, g4) \<and> r = g2 @ ''_'' @ g3 @ ''.'' @ g4
        \<and> g2 \<noteq> [] \<and> CHR ''_'' \<notin> set g2 \<and> g3 \<noteq> []
        \<and> (\<forall>c \<in> set g3. isDigit c) \<and> g4 \<noteq> [] \<and> CHR ''.'' \<notin> set g4)"
proof -
  let ?P = "\<lambda>g2 r'. CHR ''_'' \<notin> set g2 \<and> prefix ''_'' r'
              \<and> x \<in> set (reg_digits_dot_rest g1 g2 (drop 1 r'))"
  have "x \<in> set (reg_type_underscore g1 r)
          \<longleftrightarrow> (\<exists>n \<in> set (rev [1..<Suc (length r)]). ?P (take n r) (drop n r))"
    unfolding reg_type_underscore_def by (auto simp: Let_def split: if_splits)
  also have "\<dots> \<longleftrightarrow> (\<exists>g r'. r = g @ r' \<and> 1 \<le> length g \<and> ?P g r')"
    by (rule in_splits)
  also have "\<dots> \<longleftrightarrow> (\<exists>g2 g3 g4. x = (g1, g2, g3, g4) \<and> r = g2 @ ''_'' @ g3 @ ''.'' @ g4
        \<and> g2 \<noteq> [] \<and> CHR ''_'' \<notin> set g2 \<and> g3 \<noteq> []
        \<and> (\<forall>c \<in> set g3. isDigit c) \<and> g4 \<noteq> [] \<and> CHR ''.'' \<notin> set g4)"
  proof
    assume "\<exists>g r'. r = g @ r' \<and> 1 \<le> length g \<and> ?P g r'"
    then obtain g r' where h: "r = g @ r'" "1 \<le> length g" "?P g r'" by blast
    then obtain t where t: "r' = ''_'' @ t" by (auto simp: prefix_def)
    with h obtain g3 g4 where "x = (g1, g, g3, g4)" "t = g3 @ ''.'' @ g4" "g3 \<noteq> []"
        "\<forall>c \<in> set g3. isDigit c" "g4 \<noteq> []" "CHR ''.'' \<notin> set g4"
      by (auto simp: reg_digits_dot_rest_iff)
    with h t show "\<exists>g2 g3 g4. x = (g1, g2, g3, g4) \<and> r = g2 @ ''_'' @ g3 @ ''.'' @ g4
        \<and> g2 \<noteq> [] \<and> CHR ''_'' \<notin> set g2 \<and> g3 \<noteq> []
        \<and> (\<forall>c \<in> set g3. isDigit c) \<and> g4 \<noteq> [] \<and> CHR ''.'' \<notin> set g4"
      by (intro exI[of _ g] exI[of _ g3] exI[of _ g4]) auto
  next
    assume "\<exists>g2 g3 g4. x = (g1, g2, g3, g4) \<and> r = g2 @ ''_'' @ g3 @ ''.'' @ g4
        \<and> g2 \<noteq> [] \<and> CHR ''_'' \<notin> set g2 \<and> g3 \<noteq> []
        \<and> (\<forall>c \<in> set g3. isDigit c) \<and> g4 \<noteq> [] \<and> CHR ''.'' \<notin> set g4"
    then obtain g2 g3 g4 where h: "x = (g1, g2, g3, g4)" "r = g2 @ ''_'' @ g3 @ ''.'' @ g4"
        "g2 \<noteq> []" "CHR ''_'' \<notin> set g2" "g3 \<noteq> []"
        "\<forall>c \<in> set g3. isDigit c" "g4 \<noteq> []" "CHR ''.'' \<notin> set g4" by blast
    then have "x \<in> set (reg_digits_dot_rest g1 g2 (g3 @ ''.'' @ g4))"
      unfolding reg_digits_dot_rest_iff by blast
    with h show "\<exists>g r'. r = g @ r' \<and> 1 \<le> length g \<and> ?P g r'"
      by (intro exI[of _ g2] exI[of _ "''_'' @ g3 @ ''.'' @ g4"]) (auto simp: Suc_le_eq)
  qed
  finally show ?thesis .
qed

lemma customBlockReg_matches_iff:
  "(g1, g2, g3, g4) \<in> set (customBlockReg_matches s) \<longleftrightarrow>
     (s = g1 @ ''.customBlock_'' @ g2 @ ''_'' @ g3 @ ''.'' @ g4
        \<and> (\<forall>c \<in> set g1. \<not> isLineTerminator c)
        \<and> g2 \<noteq> [] \<and> CHR ''_'' \<notin> set g2 \<and> g3 \<noteq> []
        \<and> (\<forall>c \<in> set g3. isDigit c) \<and> g4 \<noteq> [] \<and> CHR ''.'' \<notin> set g4)"
proof -
  let ?x = "(g1, g2, g3, g4)"
  let ?P = "\<lambda>g r. (\<forall>c \<in> set g. \<not> isLineTerminator c) \<and> prefix ''.customBlock_'' r
              \<and> ?x \<in> set (reg_type_underscore g (drop (length ''.customBlock_'') r))"
  have "?x \<in> set (customBlockReg_matches s)
          \<longleftrightarrow> (\<exists>n \<in> set (rev [0..<Suc (length s)]). ?P (take n s) (drop n s))"
    unfolding customBlockReg_matches_def by (auto simp: Let_def split: if_splits)
  also have "\<dots> \<longleftrightarrow> (\<exists>g r. s = g @ r \<and> 0 \<le> length g \<and> ?P g r)"
    by (rule in_splits)
  also have "\<dots> \<longleftrightarrow> (s = g1 @ ''.customBlock_'' @ g2 @ ''_'' @ g3 @ ''.'' @ g4
        \<and> (\<forall>c \<in> set g1. \<not> isLineTerminator c)
        \<and> g2 \<noteq> [] \<and> CHR ''_'' \<notin> set g2 \<and> g3 \<noteq> []
        \<and> (\<forall>c \<in> set g3. isDigit c) \<and> g4 \<noteq> [] \<and> CHR ''.'' \<notin> set g4)"
  proof
    assume "\<exists>g r. s = g @ r \<and> 0 \<le> length g \<and> ?P g r"
    then obtain g r where h: "s = g @ r" "?P g r" by blast
    then obtain t where t: "r = ''.customBlock_'' @ t" by (auto simp: prefix_def)
    with h have "?x \<in> set (reg_type_underscore g t)" by simp
    then have "g = g1 \<and> t = g2 @ ''_'' @ g3 @ ''.'' @ g4
        \<and> g2 \<noteq> [] \<and> CHR ''_'' \<notin> set g2 \<and> g3 \<noteq> []
        \<and> (\<forall>c \<in> set g3. isDigit c) \<and> g4 \<noteq> [] \<and> CHR ''.'' \<notin> set g4"
      unfolding reg_type_underscore_iff by auto
    with h t show "s = g1 @ ''.customBlock_'' @ g2 @ ''_'' @ g3 @ ''.'' @ g4
        \<and> (\<forall>c \<in> set g1. \<not> isLineTerminator c)
        \<and> g2 \<noteq> [] \<and> CHR ''_'' \<notin> set g2 \<and> g3 \<noteq> []
        \<and> (\<forall>c \<in> set g3. isDigit c) \<and> g4 \<noteq> [] \<and> CHR ''.'' \<notin> set g4" by simp
  next
    assume h: "s = g1 @ ''.customBlock_'' @ g2 @ ''_'' @ g3 @ ''.'' @ g4
        \<and> (\<forall>c \<in> set g1. \<not> isLineTerminator c)
        \<and> g2 \<noteq> [] \<and> CHR ''_'' \<notin> set g2 \<and> g3 \<noteq> []
        \<and> (\<forall>c \<in> set g3. isDigit c) \<and> g4 \<noteq> [] \<and> CHR ''.'' \<notin> set g4"
    then have "?x \<in> set (reg_type_underscore g1 (g2 @ ''_'' @ g3 @ ''.'' @ g4))"
      unfolding reg_type_underscore_iff by blast
    with h show "\<exists>g r. s = g @ r \<and> 0 \<le> length g \<and> ?P g r"
      by (intro exI[of _ g1] exI[of _ "''.customBlock_'' @ g2 @ ''_'' @ g3 @ ''.'' @ g4"]) auto
  qed
  finally show ?thesis .
qed

lemma last_piece_unique:
  assumes "a @ c # x = b @ c # y" "c \<notin> set x" "c \<notin> set y"
  shows "a = b \<and> x = y"
proof -
  have "rev x @ c # rev a = rev y @ c # rev b" using assms(1)
    by (metis rev.simps(2) rev_append append_assoc append_Cons append_Nil)
  then have "takeWhile (\<lambda>z. z \<noteq> c) (rev x @ c # rev a) = takeWhile (\<lambda>z. z \<noteq> c) (rev y @ c # rev b)"
    by simp
  moreover have "takeWhile (\<lambda>z. z \<noteq> c) (rev x @ c # rev a) = rev x"
    using assms(2) by (auto simp: takeWhile_tail)
  moreover have "takeWhile (\<lambda>z. z \<noteq> c) (rev y @ c # rev b) = rev y"
    using assms(3) by (auto simp: takeWhile_tail)
  ultimately have "x = y" by simp
  with assms(1) show ?thesis by simp
qed

lemma digits_piece_unique:
  assumes "a @ c # x = b @ c # y" "\<not> isDigit c" "\<forall>d \<in> set x. isDigit d" "\<forall>d \<in> set y. isDigit d"
  shows "a = b \<and> x = y"
proof -
  have "rev x @ c # rev a = rev y @ c # rev b" using assms(1)
    by (metis rev.simps(2) rev_append append_assoc append_Cons append_Nil)
  then have "takeWhile isDigit (rev x @ c # rev a) = takeWhile isDigit (rev y @ c # rev b)"
    by simp
  moreover have "takeWhile isDigit (rev x @ c # rev a) = rev x"
    using assms(2,3) by (simp add: takeWhile_tail)
  moreover have "takeWhile isDigit (rev y @ c # rev b) = rev y"
    using assms(2,4) by (simp add: takeWhile_tail)
  ultimately have "x = y" by simp
  with assms(1) show ?thesis by simp
qed

lemma digit_char_digit:
  assumes "d < 10"
  shows "isDigit (digit_char d) \<and> digit_value (digit_char d) = d"
proof -
  from assms have "d \<in> {0, 1, 2, 3, 4, 5, 6, 7, 8, 9}" by auto
  then show ?thesis
    by (auto simp: digit_char_def isDigit_def digit_value_def)
qed

lemma toString_digits: "toString n \<noteq> [] \<and> (\<forall>c \<in> set (toString n). isDigit c)"
proof (induction n rule: toString.induct)
  case (1 n)
  show ?case
  proof (cases "n < 10")
    case True
    then show ?thesis using digit_char_digit[of n] by (simp add: toString.simps[of n])
  next
    case False
    with 1 digit_char_digit[of "n mod 10"] show ?thesis
      by (simp add: toString.simps[of n])
  qed
qed

lemma parseInt_snoc: "parseInt (ds @ [c]) = 10 * parseInt ds + digit_value c"
  by (simp add: parseInt_def)

lemma parseInt_toString: "parseInt (toString n) = n"
proof (induction n rule: toString.induct)
  case (1 n)
  show ?case
  proof (cases "n < 10")
    case True
    then show ?thesis using digit_char_digit[of n]
      by (simp add: toString.simps[of n] parseInt_def)
  next
    case False
    with 1 digit_char_digit[of "n mod 10"] show ?thesis
      by (simp add: toString.simps[of n] parseInt_snoc)
  qed
qed

lemma getEmbeddedFileNames_loop_eq:
  "i \<le> length blocks \<Longrightarrow>
   getEmbeddedFileNames_loop f blocks i names =
     names @ map (\<lambda>j. f @ ''.customBlock_'' @ block_type (blocks ! j) @ ''_''
                        @ toString j @ ''.'' @ lang (blocks ! j)) [i..<length blocks]"
proof (induction f blocks i names rule: getEmbeddedFileNames_loop.induct)
  case (1 f blocks i names)
  show ?case
  proof (cases "i < length blocks")
    case True
    then have "[i..<length blocks] = i # [i + 1..<length blocks]" by (simp add: upt_conv_Cons)
    with True "1.IH"[OF True refl] show ?thesis
      by (simp add: getEmbeddedFileNames_loop.simps[of f blocks i names] Let_def)
  next
    case False
    then have "getEmbeddedFileNames_loop f blocks i names = names"
      by (simp add: getEmbeddedFileNames_loop.simps[of f blocks i names])
    with False "1.prems" show ?thesis by simp
  qed
qed

text \<open>
  The plugin lists one name for every custom block, the name of the block at
  index \<open>j\<close> being the file name, \<^verbatim>\<open>.customBlock_\<close>, the type, an underscore,
  the decimal digits of \<open>j\<close>, a dot and the language.
\<close>

lemma getEmbeddedFileNames_eq:
  "getEmbeddedFileNames f sfc =
     map (\<lambda>j. f @ ''.customBlock_'' @ block_type (customBlocks sfc ! j) @ ''_''
                 @ toString j @ ''.'' @ lang (customBlocks sfc ! j))
       [0..<length (customBlocks sfc)]"
  by (simp add: getEmbeddedFileNames_def getEmbeddedFileNames_loop_eq)

lemma match_listed_name:
  assumes "\<forall>c \<in> set f. \<not> isLineTerminator c" "ty \<noteq> []" "CHR ''_'' \<notin> set ty"
    "lg \<noteq> []" "CHR ''.'' \<notin> set lg"
  shows "\<exists>g1 g2. match_customBlockReg (f @ ''.customBlock_'' @ ty @ ''_'' @ toString i @ ''.'' @ lg)
           = Some (g1, g2, toString i, lg)"
proof -
  let ?s = "f @ ''.customBlock_'' @ ty @ ''_'' @ toString i @ ''.'' @ lg"
  have "(f, ty, toString i, lg) \<in> set (customBlockReg_matches ?s)"
    unfolding customBlockReg_matches_iff using assms toString_digits[of i] by simp
  then obtain m ms where m: "customBlockReg_matches ?s = m # ms"
    by (cases "customBlockReg_matches ?s") auto
  obtain g1 g2 g3 g4 where g: "m = (g1, g2, g3, g4)" by (cases m) auto
  with m have "(g1, g2, g3, g4) \<in> set (customBlockReg_matches ?s)" by simp
  then have h: "?s = g1 @ ''.customBlock_'' @ g2 @ ''_'' @ g3 @ ''.'' @ g4"
      "\<forall>c \<in> set g3. isDigit c" "CHR ''.'' \<notin> set g4"
    unfolding customBlockReg_matches_iff by auto
  have e1: "(f @ ''.customBlock_'' @ ty @ ''_'' @ toString i) @ CHR ''.'' # lg
          = (g1 @ ''.customBlock_'' @ g2 @ ''_'' @ g3) @ CHR ''.'' # g4"
    using h(1) by simp
  from last_piece_unique[OF e1 assms(5) h(3)]
  have l: "lg = g4" "f @ ''.customBlock_'' @ ty @ ''_'' @ toString i = g1 @ ''.customBlock_'' @ g2 @ ''_'' @ g3"
    by simp_all
  have e2: "(f @ ''.customBlock_'' @ ty) @ CHR ''_'' # toString i
          = (g1 @ ''.customBlock_'' @ g2) @ CHR ''_'' # g3"
    using l(2) by simp
  have nd: "\<not> isDigit CHR ''_''" by (simp add: isDigit_def)
  from digits_piece_unique[OF e2 nd _ h(2)] toString_digits[of i]
  have "toString i = g3" by simp
  with l g m show ?thesis by (simp add: match_customBlockReg_def)
qed

text \<open>
  Resolving the name listed for a block appends one chunk, the content of the
  block at offset 0 of its source with every capability, provided the type of the
  block is not empty and holds no underscore, its language is not empty and holds
  no dot, and the file name holds no line terminator.
\<close>

lemma resolveEmbeddedFile_listed_name:
  assumes "i < length (customBlocks sfc)"
    "\<forall>c \<in> set f. \<not> isLineTerminator c"
    "block_type (customBlocks sfc ! i) \<noteq> []" "CHR ''_'' \<notin> set (block_type (customBlocks sfc ! i))"
    "lang (customBlocks sfc ! i) \<noteq> []" "CHR ''.'' \<notin> set (lang (customBlocks sfc ! i))"
  shows "resolveEmbeddedFile f' sfc \<lparr>fileName = getEmbeddedFileNames f sfc ! i, file_content = chunks\<rparr>
       = Inr \<lparr>fileName = getEmbeddedFileNames f sfc ! i,
              file_content = chunks @
                [(content (customBlocks sfc ! i), name (customBlocks sfc ! i), 0,
                  \<lparr>formatting = True, completion = True, diagnostics = True,
                   hover = True, semanticTokens = True, references = True\<rparr>)]\<rparr>"
proof -
  let ?b = "customBlocks sfc ! i"
  have n: "getEmbeddedFileNames f sfc ! i
         = f @ ''.customBlock_'' @ block_type ?b @ ''_'' @ toString i @ ''.'' @ lang ?b"
    using assms(1) by (simp add: getEmbeddedFileNames_eq)
  from match_listed_name[OF assms(2-6), of i] obtain g1 g2 where
    "match_customBlockReg (f @ ''.customBlock_'' @ block_type ?b @ ''_'' @ toString i @ ''.'' @ lang ?b)
       = Some (g1, g2, toString i, lang ?b)" by blast
  then have "match_customBlockReg (getEmbeddedFileNames f sfc ! i)
       = Some (g1, g2, toString i, lang ?b)" unfolding n .
  with assms(1) show ?thesis
    by (simp add: resolveEmbeddedFile_def parseInt_toString enableAllFeatures_def Let_def)
qed

text \<open>
  Claim C2 on a file with the custom blocks \<^verbatim>\<open>docs\<close> (language \<^verbatim>\<open>md\<close>) and
  \<^verbatim>\<open>my_block\<close> (language \<^verbatim>\<open>json\<close>): the plugin lists a name for each; resolving
  the first appends the chunk of the block; the second name, whose type holds an
  underscore, is not matched by the regular expression, and resolving it appends
  nothing.
\<close>

theorem C2_underscore_type_not_resolved:
  "getEmbeddedFileNames ''Widget.vue'' sample_sfc
     = [''Widget.vue.customBlock_docs_0.md'', ''Widget.vue.customBlock_my_block_1.json'']
   \<and> resolveEmbeddedFile ''Widget.vue'' sample_sfc
        \<lparr>fileName = ''Widget.vue.customBlock_docs_0.md'', file_content = []\<rparr>
     = Inr \<lparr>fileName = ''Widget.vue.customBlock_docs_0.md'',
            file_content = [(''# Widget'', ''customBlock_0'', 0,
                             \<lparr>formatting = True, completion = True, diagnostics = True,
                              hover = True, semanticTokens = True, references = True\<rparr>)]\<rparr>
   \<and> match_customBlockReg ''Widget.vue.customBlock_my_block_1.json'' = None
   \<and> resolveEmbeddedFile ''Widget.vue'' sample_sfc
        \<lparr>fileName = ''Widget.vue.customBlock_my_block_1.json'', file_content = []\<rparr>
     = Inr \<lparr>fileName = ''Widget.vue.customBlock_my_block_1.json'', file_content = []\<rparr>"
  by code_simp

end
